theory Spec2Isabelle
  imports Complex_Main
begin

section \<open>The MIDI keyboard component: data model\<close>

text \<open>
  The development embeds \<^verbatim>\<open>juce_MidiKeyboardComponent.cpp\<close>. The widget is a record of
  its member variables; every member function that mutates the widget takes the record and
  returns the updated record together with the list of requests it sent to its
  collaborators (note-on and note-off to the shared keyboard state, repaint requests, change
  messages, calls of the virtual \<^verbatim>\<open>resized\<close> callback).

  Conventions of the embedding.
  \<^item> A C++ \<^verbatim>\<open>float\<close> is an exact rational: rounding, infinities and NaN are not
    represented. Clamping, comparison and the cast to \<^verbatim>\<open>int\<close> are exact on floats, so
    only the products and sums of the key geometry are idealised.
  \<^item> A C++ \<^verbatim>\<open>int\<close> is an unbounded integer; no computation of the file comes near the
    32-bit limits for note numbers in 0..127.
  \<^item> Integer division and remainder of the source are applied to note numbers that are
    never negative (the range is clamped to 0..127), where C++ truncation and HOL's
    \<open>div\<close>/\<open>mod\<close> agree.
\<close>

datatype Orientation = horizontalKeyboard | verticalKeyboardFacingLeft | verticalKeyboardFacingRight

datatype InputSourceType = mouse | touch | pen

datatype KeyPress = KeyPress int int int

record InputIndex =
  index :: int
  type :: InputSourceType
  noteNumber :: int

datatype event =
    NoteOn int int rat
  | NoteOff int int rat
  | ChangeMessage
  | Repaint
  | RepaintNote int
  | Resized

record widget =
  orientation :: Orientation
  width :: int
  height :: int
  keyWidth :: rat
  rangeStart :: int
  rangeEnd :: int
  firstKey :: rat
  xOffset :: rat
  canScroll :: bool
  blackNoteLengthRatio :: rat
  blackNoteWidthRatio :: rat
  notePosStatic :: "rat option"
  scrollDownVisible :: bool
  scrollUpVisible :: bool
  midiChannel :: int
  midiInChannelMask :: int
  velocity :: rat
  useMousePositionForVelocity :: bool
  shouldCheckState :: bool
  shouldCheckMousePos :: bool
  octaveNumForMiddleC :: int
  keyMappingOctave :: int
  keysPressed :: "int set"
  keyPressNotes :: "int list"
  keyPresses :: "KeyPress list"
  mouseOverNotes :: "InputIndex list"
  mouseDownNotes :: "InputIndex list"

text \<open>
  \<^verbatim>\<open>width\<close> and \<^verbatim>\<open>height\<close> are the component's size (\<^verbatim>\<open>getWidth()\<close>, \<^verbatim>\<open>getHeight()\<close>);
  \<^verbatim>\<open>scrollDownVisible\<close> and \<^verbatim>\<open>scrollUpVisible\<close> are the visibility flags of the two
  child buttons (their bounds belong to the windowing framework and are left out).
  \<^verbatim>\<open>notePosStatic\<close> is the function-local \<^verbatim>\<open>static const float notePos[]\<close> of
  \<^verbatim>\<open>getKeyPosition\<close>: a static local is initialised once, by the first call, so the table is
  built from the black-note width ratio of that moment and later changes of the ratio do not
  reach it. \<open>None\<close> means that no call has happened yet; \<open>Some r\<close> that the table was
  built from ratio \<open>r\<close>.
\<close>

subsection \<open>Helpers of the JUCE core library\<close>

definition jlimit :: "'a::linorder \<Rightarrow> 'a \<Rightarrow> 'a \<Rightarrow> 'a" where
  \<comment> \<open>Modelled from the spec: \<^verbatim>\<open>jlimit\<close> (juce_core, not under src/) clamps its third
      argument into the interval given by the first two, testing the lower limit first.\<close>
  "jlimit lowerLimit upperLimit valueToConstrain =
     (if valueToConstrain < lowerLimit then lowerLimit
      else if upperLimit < valueToConstrain then upperLimit
      else valueToConstrain)"

definition jmin :: "'a::linorder \<Rightarrow> 'a \<Rightarrow> 'a" where
  \<comment> \<open>Modelled from the spec: \<^verbatim>\<open>jmin\<close> (juce_core, not under src/), the smaller of two values.\<close>
  "jmin a b = (if b < a then b else a)"

definition jmax :: "'a::linorder \<Rightarrow> 'a \<Rightarrow> 'a" where
  \<comment> \<open>Modelled from the spec: \<^verbatim>\<open>jmax\<close> (juce_core, not under src/), the larger of two values.\<close>
  "jmax a b = (if a < b then b else a)"

definition truncInt :: "rat \<Rightarrow> int" where
  \<comment> \<open>The C++ cast \<^verbatim>\<open>(int) f\<close>: truncation towards zero.\<close>
  "truncInt q = (if 0 \<le> q then floor q else ceiling q)"

definition fdiv :: "rat \<Rightarrow> rat \<Rightarrow> rat option" where
  \<comment> \<open>Float division; a zero divisor gives an infinity or NaN, which is no rational: \<open>None\<close>.\<close>
  "fdiv a b = (if b = 0 then None else Some (a / b))"

type_synonym FRange = "rat \<times> rat"

definition mkRange :: "rat \<Rightarrow> rat \<Rightarrow> FRange" where
  \<comment> \<open>Modelled from the spec: the constructor of \<^verbatim>\<open>Range<float>\<close>
      (juce_core, not under src/) stores the start and the larger of start and end, so a
      range never has negative length.\<close>
  "mkRange startValue endValue = (startValue, jmax startValue endValue)"

definition getStart :: "FRange \<Rightarrow> rat" where
  \<comment> \<open>Modelled from the spec: \<^verbatim>\<open>Range::getStart\<close> (juce_core, not under src/), the start of a span.\<close>
  "getStart r = fst r"

definition getEnd :: "FRange \<Rightarrow> rat" where
  \<comment> \<open>Modelled from the spec: \<^verbatim>\<open>Range::getEnd\<close> (juce_core, not under src/), the end of a span.\<close>
  "getEnd r = snd r"

definition getLength :: "FRange \<Rightarrow> rat" where
  \<comment> \<open>Modelled from the spec: \<^verbatim>\<open>Range::getLength\<close> (juce_core, not under src/), the width of a
      span.\<close>
  "getLength r = snd r - fst r"

definition shiftRange :: "FRange \<Rightarrow> rat \<Rightarrow> FRange" where
  \<comment> \<open>Modelled from the spec: \<^verbatim>\<open>Range::operator-\<close> (juce_core, not under src/) moves both
      ends down by the amount.\<close>
  "shiftRange r amount = (fst r - amount, snd r - amount)"

definition contains :: "FRange \<Rightarrow> rat \<Rightarrow> bool" where
  \<comment> \<open>Modelled from the spec: \<^verbatim>\<open>Range::contains\<close> (juce_core, not under src/) is the
      half-open test: the span is \<open>[start, end)\<close>.\<close>
  "contains r position = (fst r \<le> position \<and> position < snd r)"


definition isMidiNoteBlack :: "int \<Rightarrow> bool" where
  \<comment> \<open>Modelled from the spec: \<^verbatim>\<open>MidiMessage::isMidiNoteBlack\<close> (juce_audio_basics, not under
      src/): the pitch classes of the black keys, the same five as \<^verbatim>\<open>blackNotes\<close>.\<close>
  "isMidiNoteBlack n = (n mod 12 \<in> {1, 3, 6, 8, 10})"

section \<open>Geometry engine\<close>

definition whiteNotes :: "int list" where
  "whiteNotes = [0, 2, 4, 5, 7, 9, 11]"

definition blackNotes :: "int list" where
  "blackNotes = [1, 3, 6, 8, 10]"

definition tableRatio :: "widget \<Rightarrow> rat" where
  \<comment> \<open>The ratio the static table holds in a call made in this state: the ratio of its
      initialisation, or the current one when this call is the first.\<close>
  "tableRatio s = (case notePosStatic s of Some r \<Rightarrow> r | None \<Rightarrow> blackNoteWidthRatio s)"

definition notePos :: "rat \<Rightarrow> rat list" where
  "notePos r = [0, 1 - r * (6/10),
                1, 2 - r * (4/10),
                2,
                3, 4 - r * (7/10),
                4, 5 - r * (5/10),
                5, 6 - r * (3/10),
                6]"

definition getKeyPosition :: "widget \<Rightarrow> int \<Rightarrow> rat \<Rightarrow> FRange" where
  "getKeyPosition s midiNoteNumber targetKeyWidth =
     (let octave = midiNoteNumber div 12;
          note = midiNoteNumber mod 12;
          start = of_int octave * 7 * targetKeyWidth
                  + (notePos (tableRatio s) ! nat note) * targetKeyWidth;
          width = (if isMidiNoteBlack note then blackNoteWidthRatio s * targetKeyWidth
                   else targetKeyWidth)
      in mkRange start (start + width))"

definition getKeyPos :: "widget \<Rightarrow> int \<Rightarrow> FRange" where
  "getKeyPos s midiNoteNumber =
     shiftRange (shiftRange (getKeyPosition s midiNoteNumber (keyWidth s)) (xOffset s))
                (getStart (getKeyPosition s (rangeStart s) (keyWidth s)))"

definition getBlackNoteLength :: "widget \<Rightarrow> rat" where
  "getBlackNoteLength s =
     (let whiteNoteLength = (if orientation s = horizontalKeyboard then height s else width s)
      in of_int whiteNoteLength * blackNoteLengthRatio s)"

fun scanOctave :: "widget \<Rightarrow> rat \<Rightarrow> int \<Rightarrow> int list \<Rightarrow> int option" where
  \<comment> \<open>The inner loop of \<^verbatim>\<open>remappedXYToNote\<close> over the notes of one colour in one octave.\<close>
  "scanOctave s x octaveStart [] = None"
| "scanOctave s x octaveStart (b # bs) =
     (let note = octaveStart + b
      in if note \<ge> rangeStart s \<and> note \<le> rangeEnd s \<and> contains (getKeyPos s note) x
         then Some note
         else scanOctave s x octaveStart bs)"

function scanOctaves :: "widget \<Rightarrow> rat \<Rightarrow> int list \<Rightarrow> int \<Rightarrow> int option" where
  \<comment> \<open>The outer loop: \<^verbatim>\<open>for (octaveStart = ...; octaveStart <= rangeEnd; octaveStart += 12)\<close>.\<close>
  "scanOctaves s x notes octaveStart =
     (if octaveStart \<le> rangeEnd s
      then (case scanOctave s x octaveStart notes of
              Some note \<Rightarrow> Some note
            | None \<Rightarrow> scanOctaves s x notes (octaveStart + 12))
      else None)"
  by pat_completeness auto
termination
  by (relation "measure (\<lambda>(s, x, notes, octaveStart). nat (rangeEnd s + 1 - octaveStart))") auto

declare scanOctaves.simps [simp del]

definition remappedXYToNote :: "widget \<Rightarrow> rat \<times> rat \<Rightarrow> int \<times> rat option" where
  \<comment> \<open>Returns the note (or -1) and the value written to \<^verbatim>\<open>mousePositionVelocity\<close>.\<close>
  "remappedXYToNote s pos =
     (let blackNoteLength = getBlackNoteLength s;
          firstOctave = 12 * (rangeStart s div 12);
          x = fst pos - xOffset s
      in case (if snd pos < blackNoteLength then scanOctaves s x blackNotes firstOctave else None) of
           Some note \<Rightarrow> (note, fdiv (snd pos) blackNoteLength)
         | None \<Rightarrow>
            (case scanOctaves s x whiteNotes firstOctave of
               Some note \<Rightarrow>
                 (let whiteNoteLength =
                        (if orientation s = horizontalKeyboard then height s else width s)
                  in (note, fdiv (snd pos) (of_int whiteNoteLength)))
             | None \<Rightarrow> (-1, Some 0)))"

section \<open>Viewport controller\<close>

definition resizedSnap :: "widget \<Rightarrow> int \<Rightarrow> widget \<times> event list" where
  \<comment> \<open>First block of \<^verbatim>\<open>resized\<close>: when the truncated first key is not the range start and
      the whole range fits into \<open>w\<close>, go back to the range start.\<close>
  "resizedSnap s w =
     (let kx2 = getEnd (getKeyPos s (rangeEnd s))
      in if truncInt (firstKey s) \<noteq> rangeStart s
         then (let kx1 = getStart (getKeyPos s (rangeStart s))
               in if kx2 - kx1 \<le> of_int w
                  then (s\<lparr>firstKey := of_int (rangeStart s)\<rparr>, [ChangeMessage, Repaint])
                  else (s, []))
         else (s, []))"

definition resizedScroll :: "widget \<Rightarrow> int \<Rightarrow> widget \<times> event list" where
  \<comment> \<open>The \<^verbatim>\<open>if (canScroll) ... else ...\<close> block of \<^verbatim>\<open>resized\<close>; it runs with \<^verbatim>\<open>xOffset\<close>
      already reset to 0.\<close>
  "resizedScroll s w =
     (if canScroll s
      then (let scrollButtonW = jmin 12 (w div 2);
                endOfLastKey = getEnd (getKeyPos s (rangeEnd s));
                spaceAvailable = w;
                lastStartKey = fst (remappedXYToNote s (endOfLastKey - of_int spaceAvailable, 0)) + 1;
                (s1, ev) = (if lastStartKey \<ge> 0 \<and> truncInt (firstKey s) > lastStartKey
                            then (s\<lparr>firstKey := of_int (jlimit (rangeStart s) (rangeEnd s) lastStartKey)\<rparr>,
                                  [ChangeMessage])
                            else (s, []))
            in (s1\<lparr>xOffset := getStart (getKeyPos s1 (truncInt (firstKey s1)))\<rparr>, ev))
      else (s\<lparr>firstKey := of_int (rangeStart s)\<rparr>, []))"

definition resized :: "widget \<Rightarrow> widget \<times> event list" where
  "resized s =
     (if width s \<le> 0 \<or> height s \<le> 0 then (s, [])
      else
        (let w = (if orientation s \<noteq> horizontalKeyboard then height s else width s);
             s0 = s\<lparr>notePosStatic := Some (tableRatio s)\<rparr>;
             (s1, ev1) = resizedSnap s0 w;
             s2 = s1\<lparr>scrollDownVisible := (canScroll s1 \<and> firstKey s1 > of_int (rangeStart s1)),
                     xOffset := 0\<rparr>;
             (s3, ev3) = resizedScroll s2 w;
             s4 = s3\<lparr>scrollUpVisible :=
                        (canScroll s3 \<and> getStart (getKeyPos s3 (rangeEnd s3)) > of_int w)\<rparr>
         in (s4, ev1 @ ev3 @ [Repaint])))"

definition callResized :: "widget \<Rightarrow> widget \<times> event list" where
  \<comment> \<open>A call of \<^verbatim>\<open>resized()\<close> from a setter, recorded in the trace.\<close>
  "callResized s = (let (s1, ev) = resized s in (s1, Resized # ev))"

definition setKeyWidth :: "widget \<Rightarrow> rat \<Rightarrow> widget \<times> event list" where
  "setKeyWidth s widthInPixels =
     (if keyWidth s = widthInPixels then (s, [])
      else callResized (s\<lparr>keyWidth := widthInPixels\<rparr>))"

definition setOrientation :: "widget \<Rightarrow> Orientation \<Rightarrow> widget \<times> event list" where
  "setOrientation s newOrientation =
     (if orientation s = newOrientation then (s, [])
      else callResized (s\<lparr>orientation := newOrientation\<rparr>))"

definition setAvailableRange :: "widget \<Rightarrow> int \<Rightarrow> int \<Rightarrow> widget \<times> event list" where
  "setAvailableRange s lowestNote highestNote =
     (if rangeStart s \<noteq> lowestNote \<or> rangeEnd s \<noteq> highestNote
      then (let s1 = s\<lparr>rangeStart := jlimit 0 127 lowestNote\<rparr>;
                s2 = s1\<lparr>rangeEnd := jlimit 0 127 highestNote\<rparr>;
                s3 = s2\<lparr>firstKey := jlimit (of_int (rangeStart s2)) (of_int (rangeEnd s2)) (firstKey s2)\<rparr>
            in callResized s3)
      else (s, []))"

definition setLowestVisibleKeyFloat :: "widget \<Rightarrow> rat \<Rightarrow> widget \<times> event list" where
  "setLowestVisibleKeyFloat s noteNum0 =
     (let noteNum = jlimit (of_int (rangeStart s)) (of_int (rangeEnd s)) noteNum0
      in if noteNum \<noteq> firstKey s
         then (let hasMoved = (truncInt (firstKey s) \<noteq> truncInt noteNum);
                   s1 = s\<lparr>firstKey := noteNum\<rparr>;
                   (s2, ev) = callResized s1
               in (s2, (if hasMoved then [ChangeMessage] else []) @ ev))
         else (s, []))"

definition setLowestVisibleKey :: "widget \<Rightarrow> int \<Rightarrow> widget \<times> event list" where
  "setLowestVisibleKey s noteNum = setLowestVisibleKeyFloat s (of_int noteNum)"

definition setScrollButtonsVisible :: "widget \<Rightarrow> bool \<Rightarrow> widget \<times> event list" where
  "setScrollButtonsVisible s newCanScroll =
     (if canScroll s \<noteq> newCanScroll then callResized (s\<lparr>canScroll := newCanScroll\<rparr>)
      else (s, []))"

definition setBlackNoteLengthProportion :: "widget \<Rightarrow> rat \<Rightarrow> widget \<times> event list" where
  \<comment> \<open>The \<^verbatim>\<open>jassert\<close> on the ratio is a debug-build check only; the value is stored as given.\<close>
  "setBlackNoteLengthProportion s ratio =
     (if blackNoteLengthRatio s = ratio then (s, [])
      else callResized (s\<lparr>blackNoteLengthRatio := ratio\<rparr>))"

definition setBlackNoteWidthProportion :: "widget \<Rightarrow> rat \<Rightarrow> widget \<times> event list" where
  "setBlackNoteWidthProportion s ratio =
     (if blackNoteWidthRatio s = ratio then (s, [])
      else callResized (s\<lparr>blackNoteWidthRatio := ratio\<rparr>))"

definition setMidiChannelsToDisplay :: "widget \<Rightarrow> int \<Rightarrow> widget \<times> event list" where
  "setMidiChannelsToDisplay s midiChannelMask =
     (s\<lparr>midiInChannelMask := midiChannelMask, shouldCheckState := True\<rparr>, [])"

definition setVelocity :: "widget \<Rightarrow> rat \<Rightarrow> bool \<Rightarrow> widget \<times> event list" where
  "setVelocity s v useMousePosition =
     (s\<lparr>velocity := jlimit 0 1 v, useMousePositionForVelocity := useMousePosition\<rparr>, [])"

definition setOctaveForMiddleC :: "widget \<Rightarrow> int \<Rightarrow> widget \<times> event list" where
  "setOctaveForMiddleC s octaveNum = (s\<lparr>octaveNumForMiddleC := octaveNum\<rparr>, [Repaint])"

definition setKeyPressBaseOctave :: "widget \<Rightarrow> int \<Rightarrow> widget \<times> event list" where
  "setKeyPressBaseOctave s newOctaveNumber = (s\<lparr>keyMappingOctave := newOctaveNumber\<rparr>, [])"

section \<open>Pointer tracker\<close>

fun find_if :: "('a \<Rightarrow> bool) \<Rightarrow> 'a list \<Rightarrow> nat option" where
  \<comment> \<open>\<^verbatim>\<open>std::find_if\<close>: the position of the first match; \<open>None\<close> is the end iterator.\<close>
  "find_if P [] = None"
| "find_if P (x # xs) = (if P x then Some 0 else map_option Suc (find_if P xs))"

fun eraseAt :: "'a list \<Rightarrow> nat option \<Rightarrow> 'a list" where
  \<comment> \<open>\<^verbatim>\<open>vector::erase\<close> at an iterator. Erasing the end iterator is undefined in C++; every
      call of the source erases an iterator it has just found, so that equation is never used.\<close>
  "eraseAt xs (Some i) = take i xs @ drop (Suc i) xs"
| "eraseAt xs None = xs"

fun noteAt :: "InputIndex list \<Rightarrow> nat option \<Rightarrow> int" where
  \<comment> \<open>\<^verbatim>\<open>it == end ? -1 : it->noteNumber\<close>\<close>
  "noteAt xs None = -1"
| "noteAt xs (Some i) = noteNumber (xs ! i)"

fun setNoteAt :: "InputIndex list \<Rightarrow> nat option \<Rightarrow> int \<Rightarrow> InputIndex list" where
  \<comment> \<open>\<^verbatim>\<open>it->noteNumber = n\<close>; as for \<open>eraseAt\<close>, the end iterator is never written through.\<close>
  "setNoteAt xs (Some i) n = xs[i := (xs ! i)\<lparr>noteNumber := n\<rparr>]"
| "setNoteAt xs None n = xs"

definition sameSource :: "InputSourceType \<Rightarrow> int \<Rightarrow> InputIndex \<Rightarrow> bool" where
  "sameSource srcType srcIndex x = (type x = srcType \<and> index x = srcIndex)"

definition containsNoteNumber :: "InputIndex list \<Rightarrow> int \<Rightarrow> bool" where
  "containsNoteNumber container n = (find_if (\<lambda>x. noteNumber x = n) container \<noteq> None)"

definition repaintNote :: "widget \<Rightarrow> int \<Rightarrow> event list" where
  "repaintNote s noteNum =
     (if noteNum \<ge> rangeStart s \<and> noteNum \<le> rangeEnd s then [RepaintNote noteNum] else [])"

definition releaseDown :: "widget \<Rightarrow> nat option \<Rightarrow> int \<Rightarrow> rat \<Rightarrow> widget \<times> event list" where
  \<comment> \<open>\<^verbatim>\<open>mouseDownNotes.erase (downIndex); if (! containsNoteNumber (...)) state.noteOff (...)\<close>,
      the statement pair that occurs twice in \<^verbatim>\<open>updateNoteUnderMouse\<close>.\<close>
  "releaseDown s downIndex oldNoteDown eventVelocity =
     (let s1 = s\<lparr>mouseDownNotes := eraseAt (mouseDownNotes s) downIndex\<rparr>
      in (s1, if \<not> containsNoteNumber (mouseDownNotes s1) oldNoteDown
              then [NoteOff (midiChannel s1) oldNoteDown eventVelocity] else []))"

definition updateHover :: "widget \<Rightarrow> nat option \<Rightarrow> int \<Rightarrow> InputSourceType \<Rightarrow> int \<Rightarrow> widget \<times> event list" where
  \<comment> \<open>The \<^verbatim>\<open>if (oldNote != newNote)\<close> block.\<close>
  "updateHover s overIndex newNote srcType srcIndex =
     (let oldNote = noteAt (mouseOverNotes s) overIndex
      in if oldNote \<noteq> newNote
         then (s\<lparr>mouseOverNotes :=
                   (if newNote = -1 then eraseAt (mouseOverNotes s) overIndex
                    else if oldNote = -1
                         then mouseOverNotes s @ [\<lparr>index = srcIndex, type = srcType, noteNumber = newNote\<rparr>]
                         else setNoteAt (mouseOverNotes s) overIndex newNote)\<rparr>,
               repaintNote s oldNote @ repaintNote s newNote)
         else (s, []))"

definition updateNoteUnderMouse ::
  "widget \<Rightarrow> int \<Rightarrow> rat \<Rightarrow> bool \<Rightarrow> InputSourceType \<Rightarrow> int \<Rightarrow> widget \<times> event list" where
  \<comment> \<open>\<open>newNote\<close> and \<open>mousePositionVelocity\<close> are what \<^verbatim>\<open>xyToNote (pos, mousePositionVelocity)\<close>
      returned and left in the local variable: the hit test depends on the windowing
      framework (\<^verbatim>\<open>reallyContains\<close>), and the local is not initialised when the test fails, so
      both are inputs of the model.\<close>
  "updateNoteUnderMouse s newNote mousePositionVelocity isDown srcType srcIndex =
     (let downIndex = find_if (sameSource srcType srcIndex) (mouseDownNotes s);
          overIndex = find_if (sameSource srcType srcIndex) (mouseOverNotes s);
          oldNoteDown = noteAt (mouseDownNotes s) downIndex;
          eventVelocity = jmax 0 (if useMousePositionForVelocity s
                                  then mousePositionVelocity * velocity s else 1);
          (s1, ev1) = updateHover s overIndex newNote srcType srcIndex
      in if isDown
         then (if newNote = oldNoteDown then (s1, ev1)
               else (let (s2, ev2) = (if oldNoteDown \<ge> 0
                                      then releaseDown s1 downIndex oldNoteDown eventVelocity
                                      else (s1, []));
                         (s3, ev3) = (if newNote \<ge> 0 \<and> \<not> containsNoteNumber (mouseDownNotes s2) newNote
                                      then (s2\<lparr>mouseDownNotes := mouseDownNotes s2 @
                                                  [\<lparr>index = srcIndex, type = srcType, noteNumber = newNote\<rparr>]\<rparr>,
                                            [NoteOn (midiChannel s2) newNote eventVelocity])
                                      else (s2, []))
                     in (s3, ev1 @ ev2 @ ev3)))
         else (if oldNoteDown < 0 then (s1, ev1)
               else (let (s2, ev2) = releaseDown s1 downIndex oldNoteDown eventVelocity
                     in (s2, ev1 @ ev2))))"

datatype pointerEvent = MouseMove | MouseDrag | MouseDown | MouseUp | MouseEnter | MouseExit

fun handlePointer ::
  "widget \<Rightarrow> pointerEvent \<Rightarrow> int \<Rightarrow> rat \<Rightarrow> InputSourceType \<Rightarrow> int \<Rightarrow> widget \<times> event list" where
  \<comment> \<open>The six mouse callbacks with the default hooks (\<^verbatim>\<open>mouseDownOnKey\<close> accepts every press,
      the other two do nothing).\<close>
  "handlePointer s MouseMove n v ty ix =
     (let (s1, ev) = updateNoteUnderMouse s n v False ty ix
      in (s1\<lparr>shouldCheckMousePos := False\<rparr>, ev))"
| "handlePointer s MouseDrag n v ty ix = updateNoteUnderMouse s n v True ty ix"
| "handlePointer s MouseDown n v ty ix =
     (if n < 0 then (s, [])
      else (let (s1, ev) = updateNoteUnderMouse s n v True ty ix
            in (s1\<lparr>shouldCheckMousePos := True\<rparr>, ev)))"
| "handlePointer s MouseUp n v ty ix =
     (let (s1, ev) = updateNoteUnderMouse s n v False ty ix
      in (s1\<lparr>shouldCheckMousePos := False\<rparr>, ev))"
| "handlePointer s MouseEnter n v ty ix = updateNoteUnderMouse s n v False ty ix"
| "handlePointer s MouseExit n v ty ix = updateNoteUnderMouse s n v False ty ix"

fun resetKeysLoop :: "widget \<Rightarrow> nat \<Rightarrow> event list" where
  \<comment> \<open>\<^verbatim>\<open>for (auto i = 128; --i >= 0;) if (keysPressed[i]) state.noteOff (midiChannel, i, 0.0f);\<close>
      with the counter as argument.\<close>
  "resetKeysLoop s 0 = []"
| "resetKeysLoop s (Suc i) =
     (if int i \<in> keysPressed s then [NoteOff (midiChannel s) (int i) 0] else []) @ resetKeysLoop s i"

definition resetAnyKeysInUse :: "widget \<Rightarrow> widget \<times> event list" where
  "resetAnyKeysInUse s =
     (let (s1, ev1) = (if keysPressed s \<noteq> {}
                       then (s\<lparr>keysPressed := {}\<rparr>, resetKeysLoop s 128)
                       else (s, []));
          ev2 = map (\<lambda>mouseDown. NoteOff (midiChannel s1) (noteNumber mouseDown) 0) (mouseDownNotes s1)
      in (s1\<lparr>mouseDownNotes := [], mouseOverNotes := []\<rparr>, ev1 @ ev2))"

definition setMidiChannel :: "widget \<Rightarrow> int \<Rightarrow> widget \<times> event list" where
  "setMidiChannel s midiChannelNumber =
     (if midiChannel s \<noteq> midiChannelNumber
      then (let (s1, ev) = resetAnyKeysInUse s
            in (s1\<lparr>midiChannel := jlimit 1 16 midiChannelNumber\<rparr>, ev))
      else (s, []))"

section \<open>Physical-key mapping\<close>

definition setBit :: "int set \<Rightarrow> int \<Rightarrow> int set" where
  \<comment> \<open>Modelled from the spec: \<^verbatim>\<open>BigInteger::setBit\<close> (juce_core, not under src/) marks a
      note in the pressed-note bitset; a negative bit number is ignored.\<close>
  "setBit bits n = (if n \<ge> 0 then insert n bits else bits)"

definition clearBit :: "int set \<Rightarrow> int \<Rightarrow> int set" where
  \<comment> \<open>Modelled from the spec: \<^verbatim>\<open>BigInteger::clearBit\<close> (juce_core, not under src/).\<close>
  "clearBit bits n = bits - {n}"

definition removeAt :: "'a list \<Rightarrow> nat \<Rightarrow> 'a list" where
  \<comment> \<open>Modelled from the spec: \<^verbatim>\<open>Array::remove (index)\<close> (juce_core, not under src/) deletes
      the element at the index and closes the gap; an index past the end changes nothing.\<close>
  "removeAt xs i = take i xs @ drop (Suc i) xs"

fun removeLoop :: "int \<Rightarrow> nat \<Rightarrow> int list \<times> KeyPress list \<Rightarrow> int list \<times> KeyPress list" where
  \<comment> \<open>\<^verbatim>\<open>for (auto i = keyPressNotes.size(); --i >= 0;)\<close> of \<^verbatim>\<open>removeKeyPressForNote\<close>, with
      the counter as argument.\<close>
  "removeLoop off 0 (ns, ks) = (ns, ks)"
| "removeLoop off (Suc i) (ns, ks) =
     removeLoop off i (if ns ! i = off then (removeAt ns i, removeAt ks i) else (ns, ks))"

definition removeKeyPressForNote :: "widget \<Rightarrow> int \<Rightarrow> widget" where
  "removeKeyPressForNote s midiNoteOffsetFromC =
     (let (ns, ks) = removeLoop midiNoteOffsetFromC (length (keyPressNotes s))
                       (keyPressNotes s, keyPresses s)
      in s\<lparr>keyPressNotes := ns, keyPresses := ks\<rparr>)"

definition setKeyPressForNote :: "widget \<Rightarrow> KeyPress \<Rightarrow> int \<Rightarrow> widget" where
  "setKeyPressForNote s key midiNoteOffsetFromC =
     (let s1 = removeKeyPressForNote s midiNoteOffsetFromC
      in s1\<lparr>keyPressNotes := keyPressNotes s1 @ [midiNoteOffsetFromC],
             keyPresses := keyPresses s1 @ [key]\<rparr>)"

definition clearKeyMappings :: "widget \<Rightarrow> widget \<times> event list" where
  "clearKeyMappings s =
     (let (s1, ev) = resetAnyKeysInUse s
      in (s1\<lparr>keyPressNotes := [], keyPresses := []\<rparr>, ev))"

fun keyStateLoop ::
  "(KeyPress \<Rightarrow> bool) \<Rightarrow> nat \<Rightarrow> widget \<times> event list \<times> bool \<Rightarrow> widget \<times> event list \<times> bool" where
  \<comment> \<open>\<^verbatim>\<open>for (auto i = keyPresses.size(); --i >= 0;)\<close> of \<^verbatim>\<open>keyStateChanged\<close>;
      \<open>isCurrentlyDown\<close> is the keyboard state the framework reports.\<close>
  "keyStateLoop isCurrentlyDown 0 acc = acc"
| "keyStateLoop isCurrentlyDown (Suc i) (s, ev, keyPressUsed) =
     (let note = 12 * keyMappingOctave s + keyPressNotes s ! i
      in if isCurrentlyDown (keyPresses s ! i)
         then (if note \<notin> keysPressed s
               then keyStateLoop isCurrentlyDown i
                      (s\<lparr>keysPressed := setBit (keysPressed s) note\<rparr>,
                       ev @ [NoteOn (midiChannel s) note (velocity s)], True)
               else keyStateLoop isCurrentlyDown i (s, ev, keyPressUsed))
         else (if note \<in> keysPressed s
               then keyStateLoop isCurrentlyDown i
                      (s\<lparr>keysPressed := clearBit (keysPressed s) note\<rparr>,
                       ev @ [NoteOff (midiChannel s) note 0], True)
               else keyStateLoop isCurrentlyDown i (s, ev, keyPressUsed)))"

definition keyStateChanged :: "widget \<Rightarrow> (KeyPress \<Rightarrow> bool) \<Rightarrow> widget \<times> event list \<times> bool" where
  "keyStateChanged s isCurrentlyDown =
     keyStateLoop isCurrentlyDown (length (keyPresses s)) (s, [], False)"

datatype mappingOp = Bind KeyPress int | Unbind int

fun applyMappingOp :: "widget \<Rightarrow> mappingOp \<Rightarrow> widget" where
  "applyMappingOp s (Bind k off) = setKeyPressForNote s k off"
| "applyMappingOp s (Unbind off) = removeKeyPressForNote s off"

fun applyMappingOps :: "widget \<Rightarrow> mappingOp list \<Rightarrow> widget" where
  \<comment> \<open>A sequence of mapping calls, as the constructor makes for its default mapping.\<close>
  "applyMappingOps s [] = s"
| "applyMappingOps s (c # rest) = applyMappingOps (applyMappingOp s c) rest"

definition onlyKeyDown :: "KeyPress \<Rightarrow> KeyPress \<Rightarrow> bool" where
  \<comment> \<open>The keyboard state in which exactly the key \<open>k\<close> is held.\<close>
  "onlyKeyDown k x = (x = k)"

definition scenarioWidget :: widget where
  \<comment> \<open>The scenario of the specification: a horizontal keyboard of 400 by 100 pixels,
      key width 20, range 60..72, both black-note ratios 0.7, scrolled to the range start;
      no pointer is on the widget, no key is bound and none is pressed.\<close>
  "scenarioWidget =
     \<lparr>orientation = horizontalKeyboard, width = 400, height = 100, keyWidth = 20,
      rangeStart = 60, rangeEnd = 72, firstKey = 60, xOffset = 0, canScroll = True,
      blackNoteLengthRatio = 7/10, blackNoteWidthRatio = 7/10, notePosStatic = None,
      scrollDownVisible = False, scrollUpVisible = False,
      midiChannel = 1, midiInChannelMask = 65535, velocity = 1,
      useMousePositionForVelocity = True, shouldCheckState = False, shouldCheckMousePos = False,
      octaveNumForMiddleC = 3, keyMappingOctave = 6, keysPressed = {},
      keyPressNotes = [], keyPresses = [], mouseOverNotes = [], mouseDownNotes = []\<rparr>"

definition highOctaveWidget :: widget where
  \<comment> \<open>The scenario widget after the base octave was set to 10, the key \<open>y\<close> bound to offset 8
      (its place in the default mapping) and that key pressed: the note is 128.\<close>
  "highOctaveWidget =
     fst (keyStateChanged
            (setKeyPressForNote (fst (setKeyPressBaseOctave scenarioWidget 10)) (KeyPress 121 0 0) 8)
            (onlyKeyDown (KeyPress 121 0 0)))"

definition heldWidget :: widget where
  \<comment> \<open>The scenario widget with notes held: two by the computer keyboard, one by the mouse.\<close>
  "heldWidget = scenarioWidget\<lparr>keysPressed := {72, 76},
      mouseDownNotes := [\<lparr>index = 0, type = mouse, noteNumber = 60\<rparr>],
      mouseOverNotes := [\<lparr>index = 0, type = mouse, noteNumber = 60\<rparr>]\<rparr>"

fun eventChannel :: "event \<Rightarrow> int option" where
  \<comment> \<open>The MIDI channel a request to the keyboard state carries.\<close>
  "eventChannel (NoteOn c n v) = Some c"
| "eventChannel (NoteOff c n v) = Some c"
| "eventChannel _ = None"

definition firstKeyInRange :: "widget \<Rightarrow> bool" where
  "firstKeyInRange s = (of_int (rangeStart s) \<le> firstKey s \<and> firstKey s \<le> of_int (rangeEnd s))"

definition keptPairs :: "int \<Rightarrow> nat \<Rightarrow> int list \<Rightarrow> KeyPress list \<Rightarrow> (int \<times> KeyPress) list" where
  \<comment> \<open>The bindings (offset, key) that a run of the removal loop from counter \<open>i\<close> leaves.\<close>
  "keptPairs off i ns ks =
     filter (\<lambda>p. fst p \<noteq> off) (zip (take i ns) (take i ks)) @ zip (drop i ns) (drop i ks)"

definition mappingOk :: "widget \<Rightarrow> bool" where
  \<comment> \<open>The two parallel arrays have the same length and no offset is bound twice.\<close>
  "mappingOk s = (length (keyPressNotes s) = length (keyPresses s) \<and> distinct (keyPressNotes s))"

definition sourceOf :: "InputIndex \<Rightarrow> InputSourceType \<times> int" where
  \<comment> \<open>The identity of a pointer source: its type and its index.\<close>
  "sourceOf x = (type x, index x)"

definition trackerOk :: "widget \<Rightarrow> bool" where
  \<comment> \<open>No source has two hover entries or two press entries; a hover entry never holds the
      "no note" value -1 and a press entry never holds a negative note.\<close>
  "trackerOk s =
     (distinct (map sourceOf (mouseOverNotes s)) \<and> distinct (map sourceOf (mouseDownNotes s))
      \<and> list_all (\<lambda>x. noteNumber x \<noteq> -1) (mouseOverNotes s)
      \<and> list_all (\<lambda>x. noteNumber x \<ge> 0) (mouseDownNotes s))"

fun runPointer ::
  "widget \<Rightarrow> (pointerEvent \<times> int \<times> rat \<times> InputSourceType \<times> int) list \<Rightarrow> widget \<times> event list" where
  \<comment> \<open>A sequence of pointer events, each with its hit-test result and its source.\<close>
  "runPointer s [] = (s, [])"
| "runPointer s ((e, n, v, ty, ix) # rest) =
     (let (s1, ev1) = handlePointer s e n v ty ix;
          (s2, ev2) = runPointer s1 rest
      in (s2, ev1 @ ev2))"


datatype setterCall =
    SetKeyWidth rat
  | SetOrientation Orientation
  | SetAvailableRange int int
  | SetLowestVisibleKey int
  | SetLowestVisibleKeyFloat rat
  | SetScrollButtonsVisible bool
  | SetMidiChannel int
  | SetMidiChannelsToDisplay int
  | SetVelocity rat bool
  | SetBlackNoteLengthProportion rat
  | SetBlackNoteWidthProportion rat
  | SetOctaveForMiddleC int
  | SetKeyPressBaseOctave int

fun applySetter :: "widget \<Rightarrow> setterCall \<Rightarrow> widget \<times> event list" where
  "applySetter s (SetKeyWidth w) = setKeyWidth s w"
| "applySetter s (SetOrientation o') = setOrientation s o'"
| "applySetter s (SetAvailableRange lo hi) = setAvailableRange s lo hi"
| "applySetter s (SetLowestVisibleKey n) = setLowestVisibleKey s n"
| "applySetter s (SetLowestVisibleKeyFloat n) = setLowestVisibleKeyFloat s n"
| "applySetter s (SetScrollButtonsVisible b) = setScrollButtonsVisible s b"
| "applySetter s (SetMidiChannel c) = setMidiChannel s c"
| "applySetter s (SetMidiChannelsToDisplay m) = setMidiChannelsToDisplay s m"
| "applySetter s (SetVelocity v b) = setVelocity s v b"
| "applySetter s (SetBlackNoteLengthProportion r) = setBlackNoteLengthProportion s r"
| "applySetter s (SetBlackNoteWidthProportion r) = setBlackNoteWidthProportion s r"
| "applySetter s (SetOctaveForMiddleC n) = setOctaveForMiddleC s n"
| "applySetter s (SetKeyPressBaseOctave n) = setKeyPressBaseOctave s n"

fun setterArgOk :: "setterCall \<Rightarrow> bool" where
  \<comment> \<open>The one precondition on setter arguments that the range invariant needs: the new
      range is not empty (the third \<^verbatim>\<open>jassert\<close> of \<^verbatim>\<open>setAvailableRange\<close>).\<close>
  "setterArgOk (SetAvailableRange lo hi) = (lo \<le> hi)"
| "setterArgOk _ = True"

definition viewportOk :: "widget \<Rightarrow> bool" where
  "viewportOk s = (rangeStart s \<le> rangeEnd s \<and> firstKeyInRange s)"

definition wideWidget :: widget where
  \<comment> \<open>The full range 0..127 with key width 16 (75 white keys, 1200 pixels) in a component
      2000 pixels wide, scrolled by half a key.\<close>
  "wideWidget = scenarioWidget\<lparr>width := 2000, keyWidth := 16, rangeStart := 0, rangeEnd := 127,
                               firstKey := 1/2\<rparr>"

definition scrolledWidget :: widget where
  \<comment> \<open>The scenario widget scrolled to note 65, in a component wide enough for its whole range.\<close>
  "scrolledWidget = scenarioWidget\<lparr>firstKey := 65\<rparr>"

definition noScrollWidget :: widget where
  \<comment> \<open>The scenario widget without scroll buttons, in a component too narrow for its range.\<close>
  "noScrollWidget = scenarioWidget\<lparr>width := 100, canScroll := False\<rparr>"


definition uwidth :: "int \<Rightarrow> rat" where
  \<comment> \<open>The width of a key in units of the key width, for the default ratio 0.7.\<close>
  "uwidth m = (if isMidiNoteBlack m then 7/10 else 1)"



section \<open>Properties of the helpers and of relayout\<close>

lemma jlimit_bounds: "lo \<le> hi \<Longrightarrow> lo \<le> jlimit lo hi x \<and> jlimit lo hi x \<le> hi"
  by (auto simp add: jlimit_def not_less)

lemma jlimit_max_min: "lo \<le> hi \<Longrightarrow> jlimit lo hi x = max lo (min hi x)"
  by (auto simp add: jlimit_def max_def min_def)

lemma resizedSnap_fields:
  "rangeStart (fst (resizedSnap s w)) = rangeStart s"
  "rangeEnd (fst (resizedSnap s w)) = rangeEnd s"
  "canScroll (fst (resizedSnap s w)) = canScroll s"
  "blackNoteLengthRatio (fst (resizedSnap s w)) = blackNoteLengthRatio s"
  "blackNoteWidthRatio (fst (resizedSnap s w)) = blackNoteWidthRatio s"
  "keyWidth (fst (resizedSnap s w)) = keyWidth s"
  by (simp_all add: resizedSnap_def Let_def)

lemma resizedScroll_fields:
  "rangeStart (fst (resizedScroll s w)) = rangeStart s"
  "rangeEnd (fst (resizedScroll s w)) = rangeEnd s"
  "canScroll (fst (resizedScroll s w)) = canScroll s"
  "blackNoteLengthRatio (fst (resizedScroll s w)) = blackNoteLengthRatio s"
  "blackNoteWidthRatio (fst (resizedScroll s w)) = blackNoteWidthRatio s"
  "keyWidth (fst (resizedScroll s w)) = keyWidth s"
  by (simp_all add: resizedScroll_def Let_def case_prod_beta)

lemma resized_fields:
  "rangeStart (fst (resized s)) = rangeStart s"
  "rangeEnd (fst (resized s)) = rangeEnd s"
  "canScroll (fst (resized s)) = canScroll s"
  "blackNoteLengthRatio (fst (resized s)) = blackNoteLengthRatio s"
  "blackNoteWidthRatio (fst (resized s)) = blackNoteWidthRatio s"
  "keyWidth (fst (resized s)) = keyWidth s"
  by (simp_all add: resized_def Let_def resizedSnap_fields resizedScroll_fields case_prod_beta)

lemma callResized_fst: "fst (callResized s) = fst (resized s)"
  by (simp add: callResized_def case_prod_beta)

lemma callResized_snd: "snd (callResized s) = Resized # snd (resized s)"
  by (simp add: callResized_def case_prod_beta)

lemma resizedSnap_firstKey:
  "rangeStart s \<le> rangeEnd s \<Longrightarrow> firstKeyInRange s \<Longrightarrow> firstKeyInRange (fst (resizedSnap s w))"
  by (simp add: resizedSnap_def Let_def firstKeyInRange_def)

lemma resizedScroll_firstKey:
  "rangeStart s \<le> rangeEnd s \<Longrightarrow> firstKeyInRange s \<Longrightarrow> firstKeyInRange (fst (resizedScroll s w))"
  using jlimit_bounds [of "rangeStart s" "rangeEnd s"]
  by (simp add: resizedScroll_def Let_def firstKeyInRange_def case_prod_beta)

lemma resized_firstKey:
  assumes "rangeStart s \<le> rangeEnd s" "firstKeyInRange s"
  shows "firstKeyInRange (fst (resized s))"
proof (cases "width s \<le> 0 \<or> height s \<le> 0")
  case True
  then show ?thesis using assms by (simp add: resized_def)
next
  case False
  define w where "w = (if orientation s \<noteq> horizontalKeyboard then height s else width s)"
  define s0 where "s0 = s\<lparr>notePosStatic := Some (tableRatio s)\<rparr>"
  define s1 where "s1 = fst (resizedSnap s0 w)"
  define s2 where "s2 = s1\<lparr>scrollDownVisible := (canScroll s1 \<and> firstKey s1 > of_int (rangeStart s1)),
                          xOffset := 0\<rparr>"
  define s3 where "s3 = fst (resizedScroll s2 w)"
  have r0: "rangeStart s0 \<le> rangeEnd s0" "firstKeyInRange s0"
    using assms by (simp_all add: s0_def firstKeyInRange_def)
  have r1: "rangeStart s1 \<le> rangeEnd s1" "firstKeyInRange s1"
    using r0 resizedSnap_firstKey [of s0 w] by (simp_all add: s1_def resizedSnap_fields)
  have r2: "rangeStart s2 \<le> rangeEnd s2" "firstKeyInRange s2"
    using r1 by (simp_all add: s2_def firstKeyInRange_def)
  have r3: "firstKeyInRange s3"
    using r2 resizedScroll_firstKey [of s2 w] by (simp add: s3_def)
  have "firstKey (fst (resized s)) = firstKey s3" "rangeStart (fst (resized s)) = rangeStart s3"
       "rangeEnd (fst (resized s)) = rangeEnd s3"
    using False
    by (simp_all add: resized_def Let_def case_prod_beta s3_def s2_def s1_def s0_def w_def)
  then show ?thesis using r3 by (simp add: firstKeyInRange_def)
qed

section \<open>Clamping of configuration values\<close>

text \<open>
  C7 (amended). Out-of-range configuration values are never rejected. The bounds of the note
  range are clamped to 0..127 and the velocity scalar to the interval from 0 to 1. The two
  black-note ratios are not clamped: the setters store the ratio they are given, whatever
  it is (the source only asserts the interval in debug builds).
\<close>

theorem configuration_setters_clamp_or_store:
  assumes "0 \<le> rangeStart s \<and> rangeStart s \<le> 127 \<and> 0 \<le> rangeEnd s \<and> rangeEnd s \<le> 127"
  shows "rangeStart (fst (setAvailableRange s lo hi)) = max 0 (min 127 lo)
       \<and> rangeEnd (fst (setAvailableRange s lo hi)) = max 0 (min 127 hi)
       \<and> velocity (fst (setVelocity s v u)) = max 0 (min 1 v)
       \<and> blackNoteLengthRatio (fst (setBlackNoteLengthProportion s r)) = r
       \<and> blackNoteWidthRatio (fst (setBlackNoteWidthProportion s r)) = r"
proof -
  have a: "rangeStart (fst (setAvailableRange s lo hi)) = max 0 (min 127 lo)"
    using assms
    by (auto simp add: setAvailableRange_def Let_def callResized_fst resized_fields jlimit_max_min)
  have b: "rangeEnd (fst (setAvailableRange s lo hi)) = max 0 (min 127 hi)"
    using assms
    by (auto simp add: setAvailableRange_def Let_def callResized_fst resized_fields jlimit_max_min)
  have c: "velocity (fst (setVelocity s v u)) = max 0 (min 1 v)"
    by (simp add: setVelocity_def jlimit_max_min)
  have d: "blackNoteLengthRatio (fst (setBlackNoteLengthProportion s r)) = r"
    by (simp add: setBlackNoteLengthProportion_def callResized_fst resized_fields)
  have e: "blackNoteWidthRatio (fst (setBlackNoteWidthProportion s r)) = r"
    by (simp add: setBlackNoteWidthProportion_def callResized_fst resized_fields)
  from a b c d e show ?thesis by simp
qed

theorem configuration_setters_clamp_or_store_witness:
  "(0 \<le> rangeStart scenarioWidget \<and> rangeStart scenarioWidget \<le> 127
      \<and> 0 \<le> rangeEnd scenarioWidget \<and> rangeEnd scenarioWidget \<le> 127)
   \<and> rangeStart (fst (setAvailableRange scenarioWidget (-5) 200)) = 0
   \<and> rangeEnd (fst (setAvailableRange scenarioWidget (-5) 200)) = 127
   \<and> velocity (fst (setVelocity scenarioWidget 3 True)) = 1
   \<and> blackNoteLengthRatio (fst (setBlackNoteLengthProportion scenarioWidget (-1))) = -1"
proof -
  have h: "0 \<le> rangeStart scenarioWidget \<and> rangeStart scenarioWidget \<le> 127
      \<and> 0 \<le> rangeEnd scenarioWidget \<and> rangeEnd scenarioWidget \<le> 127"
    by (simp add: scenarioWidget_def)
  show ?thesis
    using h configuration_setters_clamp_or_store [OF h, of "-5" 200 3 True "-1"]
    by simp
qed

text \<open>
  The claim as written fails for the ratios: a width ratio of 2 is stored as 2, outside the
  interval from 0 to 1.
\<close>

theorem ratio_setter_does_not_clamp:
  "\<not> (blackNoteWidthRatio (fst (setBlackNoteWidthProportion scenarioWidget 2)) \<le> 1)"
  by (simp add: setBlackNoteWidthProportion_def callResized_fst resized_fields scenarioWidget_def)

section \<open>Switching the MIDI channel\<close>

lemma resetKeysLoop_mem:
  "i < n \<Longrightarrow> int i \<in> keysPressed s \<Longrightarrow> NoteOff (midiChannel s) (int i) 0 \<in> set (resetKeysLoop s n)"
  by (induction n) (auto simp: less_Suc_eq)

lemma resetKeysLoop_empty: "keysPressed s = {} \<Longrightarrow> resetKeysLoop s n = []"
  by (induction n) auto

lemma resetKeysLoop_only:
  "e \<in> set (resetKeysLoop s n) \<Longrightarrow>
   \<exists>k. e = NoteOff (midiChannel s) k 0 \<and> k \<in> keysPressed s \<and> 0 \<le> k \<and> k < int n"
  by (induction n) (auto split: if_splits)

lemma resetAnyKeysInUse_events:
  "snd (resetAnyKeysInUse s) =
     resetKeysLoop s 128 @ map (\<lambda>m. NoteOff (midiChannel s) (noteNumber m) 0) (mouseDownNotes s)"
  by (simp add: resetAnyKeysInUse_def Let_def resetKeysLoop_empty del: resetKeysLoop.simps)

lemma resetAnyKeysInUse_state:
  "fst (resetAnyKeysInUse s) = s\<lparr>keysPressed := {}, mouseDownNotes := [], mouseOverNotes := []\<rparr>"
  by (simp add: resetAnyKeysInUse_def Let_def)

lemma updateHover_channel:
  "midiChannel (fst (updateHover s oi n ty ix)) = midiChannel s"
  by (simp add: updateHover_def Let_def)

lemma updateHover_events:
  "\<forall>e \<in> set (snd (updateHover s oi n ty ix)). eventChannel e = None"
  by (auto simp add: updateHover_def Let_def repaintNote_def)

lemma releaseDown_channel:
  "midiChannel (fst (releaseDown s di n v)) = midiChannel s"
  by (simp add: releaseDown_def Let_def)

lemma releaseDown_events:
  "\<forall>e \<in> set (snd (releaseDown s di n v)). eventChannel e = Some (midiChannel s)"
  by (simp add: releaseDown_def Let_def)

lemma updateNoteUnderMouse_channel:
  "\<forall>e \<in> set (snd (updateNoteUnderMouse s n v d ty ix)).
     eventChannel e = None \<or> eventChannel e = Some (midiChannel s)"
proof -
  define oi where "oi = find_if (sameSource ty ix) (mouseOverNotes s)"
  define s1 where "s1 = fst (updateHover s oi n ty ix)"
  have c1: "midiChannel s1 = midiChannel s"
    by (simp add: s1_def updateHover_channel)
  have e1: "\<forall>e \<in> set (snd (updateHover s oi n ty ix)). eventChannel e = None"
    by (rule updateHover_events)
  have e2: "\<forall>e \<in> set (snd (releaseDown s1 di k w)). eventChannel e = Some (midiChannel s)" for di k w
    using releaseDown_events [of s1 di k w] c1 by simp
  have c2: "midiChannel (fst (releaseDown s1 di k w)) = midiChannel s" for di k w
    by (simp add: releaseDown_channel c1)
  show ?thesis
    using e1 e2 c1 c2
    by (auto simp add: updateNoteUnderMouse_def Let_def case_prod_beta oi_def [symmetric] s1_def [symmetric])
qed

lemma keyStateLoop_channel:
  "\<forall>e \<in> set ev. eventChannel e = Some c \<Longrightarrow> midiChannel s = c \<Longrightarrow>
   \<forall>e \<in> set (fst (snd (keyStateLoop d i (s, ev, u)))). eventChannel e = Some c"
proof (induction i arbitrary: s ev u)
  case 0
  then show ?case by simp
next
  case (Suc i)
  let ?note = "12 * keyMappingOctave s + keyPressNotes s ! i"
  have on: "\<forall>e \<in> set (ev @ [NoteOn (midiChannel s) ?note (velocity s)]). eventChannel e = Some c"
    using Suc.prems by simp
  have off: "\<forall>e \<in> set (ev @ [NoteOff (midiChannel s) ?note 0]). eventChannel e = Some c"
    using Suc.prems by simp
  show ?case
    using Suc.IH [OF on, of "s\<lparr>keysPressed := setBit (keysPressed s) ?note\<rparr>" True]
          Suc.IH [OF off, of "s\<lparr>keysPressed := clearBit (keysPressed s) ?note\<rparr>" True]
          Suc.IH [OF Suc.prems(1), of s u] Suc.prems(2)
    by (simp add: Let_def)
qed

lemma keyStateChanged_channel:
  "\<forall>e \<in> set (fst (snd (keyStateChanged s d))). eventChannel e = Some (midiChannel s)"
  unfolding keyStateChanged_def by (rule keyStateLoop_channel) simp_all

text \<open>
  C5 (amended). When the requested channel differs from the current one, \<^verbatim>\<open>setMidiChannel\<close>
  sends a note-off with velocity 0 on the old channel for every bit from 127 down to 0 that
  is set in the pressed-key bitset and then for every entry of the mouse-down set, sends
  nothing else, empties the bitset, the mouse-down set and the hover set, and only then
  stores the new channel (clamped to 1..16, so a channel in that interval is stored as
  given). Note-on and note-off requests of later pointer and key events carry the new
  channel.
\<close>

theorem setMidiChannel_releases_held_notes:
  assumes "c \<noteq> midiChannel s"
  shows "snd (setMidiChannel s c) =
           resetKeysLoop s 128 @ map (\<lambda>m. NoteOff (midiChannel s) (noteNumber m) 0) (mouseDownNotes s)
       \<and> (\<forall>i. 0 \<le> i \<and> i < 128 \<and> i \<in> keysPressed s \<longrightarrow>
              NoteOff (midiChannel s) i 0 \<in> set (snd (setMidiChannel s c)))
       \<and> (\<forall>m \<in> set (mouseDownNotes s).
              NoteOff (midiChannel s) (noteNumber m) 0 \<in> set (snd (setMidiChannel s c)))
       \<and> (\<forall>e \<in> set (snd (setMidiChannel s c)). \<exists>n. e = NoteOff (midiChannel s) n 0)
       \<and> keysPressed (fst (setMidiChannel s c)) = {}
       \<and> mouseDownNotes (fst (setMidiChannel s c)) = []
       \<and> mouseOverNotes (fst (setMidiChannel s c)) = []
       \<and> midiChannel (fst (setMidiChannel s c)) = jlimit 1 16 c
       \<and> (1 \<le> c \<and> c \<le> 16 \<longrightarrow> midiChannel (fst (setMidiChannel s c)) = c)
       \<and> (\<forall>e \<in> set (snd (updateNoteUnderMouse (fst (setMidiChannel s c)) n v d ty ix)).
              eventChannel e = None \<or> eventChannel e = Some (jlimit 1 16 c))
       \<and> (\<forall>e \<in> set (fst (snd (keyStateChanged (fst (setMidiChannel s c)) down))).
              eventChannel e = Some (jlimit 1 16 c))"
proof -
  have ev: "snd (setMidiChannel s c) = snd (resetAnyKeysInUse s)"
    using assms by (simp add: setMidiChannel_def case_prod_beta)
  have st: "fst (setMidiChannel s c) = (fst (resetAnyKeysInUse s))\<lparr>midiChannel := jlimit 1 16 c\<rparr>"
    using assms by (simp add: setMidiChannel_def case_prod_beta)
  have ch: "midiChannel (fst (setMidiChannel s c)) = jlimit 1 16 c"
    by (simp add: st)
  have p1: "snd (setMidiChannel s c) =
           resetKeysLoop s 128 @ map (\<lambda>m. NoteOff (midiChannel s) (noteNumber m) 0) (mouseDownNotes s)"
    by (simp only: ev resetAnyKeysInUse_events)
  have p2: "\<forall>i. 0 \<le> i \<and> i < 128 \<and> i \<in> keysPressed s \<longrightarrow>
              NoteOff (midiChannel s) i 0 \<in> set (snd (setMidiChannel s c))"
  proof (intro allI impI)
    fix i :: int assume h: "0 \<le> i \<and> i < 128 \<and> i \<in> keysPressed s"
    then have "nat i < 128" "int (nat i) \<in> keysPressed s" by auto
    from resetKeysLoop_mem [OF this] h
    show "NoteOff (midiChannel s) i 0 \<in> set (snd (setMidiChannel s c))"
      by (simp add: p1 del: resetKeysLoop.simps)
  qed
  have p3: "\<forall>m \<in> set (mouseDownNotes s).
              NoteOff (midiChannel s) (noteNumber m) 0 \<in> set (snd (setMidiChannel s c))"
    by (simp add: p1 del: resetKeysLoop.simps)
  have p4: "\<forall>e \<in> set (snd (setMidiChannel s c)). \<exists>n. e = NoteOff (midiChannel s) n 0"
    using resetKeysLoop_only [of _ s 128]
    by (auto simp add: p1 simp del: resetKeysLoop.simps)
  have p5: "keysPressed (fst (setMidiChannel s c)) = {}"
           "mouseDownNotes (fst (setMidiChannel s c)) = []"
           "mouseOverNotes (fst (setMidiChannel s c)) = []"
    by (simp_all add: st resetAnyKeysInUse_state)
  have p6: "1 \<le> c \<and> c \<le> 16 \<longrightarrow> midiChannel (fst (setMidiChannel s c)) = c"
    by (simp add: ch jlimit_def)
  have p7: "\<forall>e \<in> set (snd (updateNoteUnderMouse (fst (setMidiChannel s c)) n v d ty ix)).
              eventChannel e = None \<or> eventChannel e = Some (jlimit 1 16 c)"
    using updateNoteUnderMouse_channel [of "fst (setMidiChannel s c)" n v d ty ix]
    by (simp only: ch)
  have p8: "\<forall>e \<in> set (fst (snd (keyStateChanged (fst (setMidiChannel s c)) down))).
              eventChannel e = Some (jlimit 1 16 c)"
    using keyStateChanged_channel [of "fst (setMidiChannel s c)" down]
    by (simp only: ch)
  from p1 p2 p3 p4 p5 ch p6 p7 p8 show ?thesis by blast
qed

theorem setMidiChannel_releases_held_notes_witness:
  "2 \<noteq> midiChannel heldWidget
   \<and> snd (setMidiChannel heldWidget 2) = [NoteOff 1 76 0, NoteOff 1 72 0, NoteOff 1 60 0]
   \<and> keysPressed (fst (setMidiChannel heldWidget 2)) = {}
   \<and> mouseDownNotes (fst (setMidiChannel heldWidget 2)) = []
   \<and> midiChannel (fst (setMidiChannel heldWidget 2)) = 2"
proof -
  have h: "2 \<noteq> midiChannel heldWidget"
    by (simp add: heldWidget_def scenarioWidget_def)
  have l: "resetKeysLoop heldWidget 128 = [NoteOff 1 76 0, NoteOff 1 72 0]"
    by code_simp
  have m: "map (\<lambda>m. NoteOff (midiChannel heldWidget) (noteNumber m) 0) (mouseDownNotes heldWidget)
             = [NoteOff 1 60 0]"
    by (simp add: heldWidget_def scenarioWidget_def)
  note t = setMidiChannel_releases_held_notes [OF h, of 60 0 False mouse 0 "\<lambda>k. False"]
  have "snd (setMidiChannel heldWidget 2) = [NoteOff 1 76 0, NoteOff 1 72 0, NoteOff 1 60 0]"
    using t l m by simp
  moreover have "midiChannel (fst (setMidiChannel heldWidget 2)) = 2"
    using t by (simp add: jlimit_def)
  moreover have "keysPressed (fst (setMidiChannel heldWidget 2)) = {}"
    "mouseDownNotes (fst (setMidiChannel heldWidget 2)) = []"
    using t by blast+
  ultimately show ?thesis using h by simp
qed

text \<open>
  The claim as written speaks of every bit of the bitset. The loop of \<^verbatim>\<open>resetAnyKeysInUse\<close>
  runs over the bits 127 down to 0 only: with base octave 10, the key bound to offset 8
  presses note 128, bit 128 is set, and the channel switch clears it without any note-off.
\<close>

theorem bit_above_127_cleared_without_note_off:
  "fst (snd (keyStateChanged
       (setKeyPressForNote (fst (setKeyPressBaseOctave scenarioWidget 10)) (KeyPress 121 0 0) 8)
       (onlyKeyDown (KeyPress 121 0 0)))) = [NoteOn 1 128 1]
   \<and> 128 \<in> keysPressed highOctaveWidget
   \<and> midiChannel highOctaveWidget = 1
   \<and> snd (setMidiChannel highOctaveWidget 2) = []
   \<and> keysPressed (fst (setMidiChannel highOctaveWidget 2)) = {}
   \<and> midiChannel (fst (setMidiChannel highOctaveWidget 2)) = 2"
  by code_simp

section \<open>Physical-key mapping: rebinding\<close>

lemma removeLoop_pairs:
  "length ns = length ks \<Longrightarrow> i \<le> length ns \<Longrightarrow>
   removeLoop off i (ns, ks) = (map fst (keptPairs off i ns ks), map snd (keptPairs off i ns ks))"
proof (induction i arbitrary: ns ks)
  case 0
  then show ?case by (simp add: keptPairs_def)
next
  case (Suc i)
  have i: "i < length ns" "i < length ks" using Suc.prems by simp_all
  have tk: "take (Suc i) ns = take i ns @ [ns ! i]" "take (Suc i) ks = take i ks @ [ks ! i]"
    using i by (simp_all add: take_Suc_conv_app_nth)
  show ?case
  proof (cases "ns ! i = off")
    case True
    have l: "length (removeAt ns i) = length (removeAt ks i)" "i \<le> length (removeAt ns i)"
      using i Suc.prems by (simp_all add: removeAt_def)
    have t: "take i (removeAt ns i) = take i ns" "take i (removeAt ks i) = take i ks"
            "drop i (removeAt ns i) = drop (Suc i) ns" "drop i (removeAt ks i) = drop (Suc i) ks"
      using i by (simp_all add: removeAt_def)
    have "keptPairs off i (removeAt ns i) (removeAt ks i) = keptPairs off (Suc i) ns ks"
      using True i Suc.prems by (simp add: keptPairs_def t tk)
    then show ?thesis
      using Suc.IH [OF l] True by simp
  next
    case False
    have l: "length ns = length ks" "i \<le> length ns" using Suc.prems by simp_all
    have d: "drop i ns = ns ! i # drop (Suc i) ns" "drop i ks = ks ! i # drop (Suc i) ks"
      using i by (simp_all add: Cons_nth_drop_Suc)
    have "keptPairs off i ns ks = keptPairs off (Suc i) ns ks"
      using False i Suc.prems by (simp add: keptPairs_def tk d)
    then show ?thesis
      using Suc.IH [OF l] False by simp
  qed
qed

lemma map_fst_filter_zip:
  "length ns = length ks \<Longrightarrow>
   map fst (filter (\<lambda>p. fst p \<noteq> off) (zip ns ks)) = filter (\<lambda>n. n \<noteq> off) ns"
  by (induction ns ks rule: list_induct2) simp_all

lemma removeKeyPressForNote_pairs:
  assumes "length (keyPressNotes s) = length (keyPresses s)"
  shows "keyPressNotes (removeKeyPressForNote s off)
           = map fst (filter (\<lambda>p. fst p \<noteq> off) (zip (keyPressNotes s) (keyPresses s)))"
    and "keyPresses (removeKeyPressForNote s off)
           = map snd (filter (\<lambda>p. fst p \<noteq> off) (zip (keyPressNotes s) (keyPresses s)))"
  using removeLoop_pairs [OF assms, of "length (keyPressNotes s)" off] assms
  by (simp_all add: removeKeyPressForNote_def keptPairs_def)

lemma removeKeyPressForNote_mapping:
  assumes "length (keyPressNotes s) = length (keyPresses s)"
  shows "keyPressNotes (removeKeyPressForNote s off) = filter (\<lambda>n. n \<noteq> off) (keyPressNotes s)"
    and "length (keyPressNotes (removeKeyPressForNote s off)) = length (keyPresses (removeKeyPressForNote s off))"
    and "zip (keyPressNotes (removeKeyPressForNote s off)) (keyPresses (removeKeyPressForNote s off))
          = filter (\<lambda>p. fst p \<noteq> off) (zip (keyPressNotes s) (keyPresses s))"
proof -
  let ?Z = "filter (\<lambda>p. fst p \<noteq> off) (zip (keyPressNotes s) (keyPresses s))"
  note p = removeKeyPressForNote_pairs [OF assms, of off]
  show "keyPressNotes (removeKeyPressForNote s off) = filter (\<lambda>n. n \<noteq> off) (keyPressNotes s)"
    by (simp only: p map_fst_filter_zip [OF assms])
  show "length (keyPressNotes (removeKeyPressForNote s off)) = length (keyPresses (removeKeyPressForNote s off))"
    by (simp only: p length_map)
  show "zip (keyPressNotes (removeKeyPressForNote s off)) (keyPresses (removeKeyPressForNote s off)) = ?Z"
    by (simp only: p zip_map_fst_snd)
qed

lemma removeKeyPressForNote_others:
  "keyMappingOctave (removeKeyPressForNote s off) = keyMappingOctave s"
  "keysPressed (removeKeyPressForNote s off) = keysPressed s"
  "midiChannel (removeKeyPressForNote s off) = midiChannel s"
  "velocity (removeKeyPressForNote s off) = velocity s"
  by (simp_all add: removeKeyPressForNote_def case_prod_beta)

lemma setKeyPressForNote_mapping:
  assumes "length (keyPressNotes s) = length (keyPresses s)"
  shows "keyPressNotes (setKeyPressForNote s k off) = filter (\<lambda>n. n \<noteq> off) (keyPressNotes s) @ [off]"
    and "length (keyPressNotes (setKeyPressForNote s k off)) = length (keyPresses (setKeyPressForNote s k off))"
    and "zip (keyPressNotes (setKeyPressForNote s k off)) (keyPresses (setKeyPressForNote s k off))
          = filter (\<lambda>p. fst p \<noteq> off) (zip (keyPressNotes s) (keyPresses s)) @ [(off, k)]"
proof -
  note r = removeKeyPressForNote_mapping [OF assms, of off]
  show "keyPressNotes (setKeyPressForNote s k off) = filter (\<lambda>n. n \<noteq> off) (keyPressNotes s) @ [off]"
    using r(1) by (simp add: setKeyPressForNote_def Let_def)
  show "length (keyPressNotes (setKeyPressForNote s k off)) = length (keyPresses (setKeyPressForNote s k off))"
    using r(2) by (simp add: setKeyPressForNote_def Let_def)
  show "zip (keyPressNotes (setKeyPressForNote s k off)) (keyPresses (setKeyPressForNote s k off))
          = filter (\<lambda>p. fst p \<noteq> off) (zip (keyPressNotes s) (keyPresses s)) @ [(off, k)]"
    using r(2) r(3) by (simp add: setKeyPressForNote_def Let_def)
qed

lemma setKeyPressForNote_others:
  "keyMappingOctave (setKeyPressForNote s k off) = keyMappingOctave s"
  "keysPressed (setKeyPressForNote s k off) = keysPressed s"
  "midiChannel (setKeyPressForNote s k off) = midiChannel s"
  "velocity (setKeyPressForNote s k off) = velocity s"
  by (simp_all add: setKeyPressForNote_def Let_def removeKeyPressForNote_others)


lemma applyMappingOp_ok: "mappingOk s \<Longrightarrow> mappingOk (applyMappingOp s c)"
proof (cases c)
  case (Bind k off)
  assume "mappingOk s"
  then have l: "length (keyPressNotes s) = length (keyPresses s)" and d: "distinct (keyPressNotes s)"
    by (simp_all add: mappingOk_def)
  have "distinct (keyPressNotes (setKeyPressForNote s k off))"
    using d by (simp add: setKeyPressForNote_mapping(1) [OF l])
  then show ?thesis
    using setKeyPressForNote_mapping(2) [OF l, of k off] Bind by (simp add: mappingOk_def)
next
  case (Unbind off)
  assume "mappingOk s"
  then have l: "length (keyPressNotes s) = length (keyPresses s)" and d: "distinct (keyPressNotes s)"
    by (simp_all add: mappingOk_def)
  have "distinct (keyPressNotes (removeKeyPressForNote s off))"
    using d by (simp add: removeKeyPressForNote_mapping(1) [OF l])
  then show ?thesis
    using removeKeyPressForNote_mapping(2) [OF l, of off] Unbind by (simp add: mappingOk_def)
qed

lemma applyMappingOps_ok: "mappingOk s \<Longrightarrow> mappingOk (applyMappingOps s cs)"
  by (induction cs arbitrary: s) (simp_all add: applyMappingOp_ok)


lemma keyStateLoop_mono:
  "set ev \<subseteq> set (fst (snd (keyStateLoop d i (s, ev, u))))"
proof (induction i arbitrary: s ev u)
  case 0
  then show ?case by simp
next
  case (Suc i)
  let ?note = "12 * keyMappingOctave s + keyPressNotes s ! i"
  show ?case
    using Suc.IH [of "ev @ [NoteOn (midiChannel s) ?note (velocity s)]"
                     "s\<lparr>keysPressed := setBit (keysPressed s) ?note\<rparr>" True]
          Suc.IH [of "ev @ [NoteOff (midiChannel s) ?note 0]"
                     "s\<lparr>keysPressed := clearBit (keysPressed s) ?note\<rparr>" True]
          Suc.IH [of ev s u]
    by (simp add: Let_def)
qed

lemma keyStateLoop_fires:
  assumes "distinct (keyPressNotes s)" "i \<le> length (keyPressNotes s)" "j < i"
    and "d (keyPresses s ! j)"
    and "12 * keyMappingOctave s + keyPressNotes s ! j \<notin> keysPressed s"
  shows "NoteOn (midiChannel s) (12 * keyMappingOctave s + keyPressNotes s ! j) (velocity s)
           \<in> set (fst (snd (keyStateLoop d i (s, ev, u))))"
  using assms
proof (induction i arbitrary: s ev u)
  case 0
  then show ?case by simp
next
  case (Suc i)
  let ?note = "12 * keyMappingOctave s + keyPressNotes s ! i"
  let ?target = "12 * keyMappingOctave s + keyPressNotes s ! j"
  let ?on = "s\<lparr>keysPressed := setBit (keysPressed s) ?note\<rparr>"
  let ?off = "s\<lparr>keysPressed := clearBit (keysPressed s) ?note\<rparr>"
  show ?case
  proof (cases "j = i")
    case True
    have "NoteOn (midiChannel s) ?target (velocity s)
            \<in> set (ev @ [NoteOn (midiChannel s) ?note (velocity s)])"
      using True by simp
    then have "NoteOn (midiChannel s) ?target (velocity s)
            \<in> set (fst (snd (keyStateLoop d i (?on, ev @ [NoteOn (midiChannel s) ?note (velocity s)], True))))"
      using keyStateLoop_mono by blast
    then show ?thesis
      using True Suc.prems by (simp add: Let_def)
  next
    case False
    then have ji: "j < i" using Suc.prems by simp
    have il: "i \<le> length (keyPressNotes s)" "i < length (keyPressNotes s)" "j < length (keyPressNotes s)"
      using Suc.prems ji by simp_all
    have ne: "keyPressNotes s ! i \<noteq> keyPressNotes s ! j"
      using Suc.prems(1) il False by (simp add: nth_eq_iff_index_eq)
    then have ne': "?note \<noteq> ?target" by simp
    have a: "NoteOn (midiChannel s) ?target (velocity s) \<in> set (fst (snd (keyStateLoop d i (s, ev', u'))))" for ev' u'
      using Suc.IH [of s ev' u'] Suc.prems il ji by simp
    have b: "NoteOn (midiChannel s) ?target (velocity s) \<in> set (fst (snd (keyStateLoop d i (?on, ev', u'))))" for ev' u'
      using Suc.IH [of ?on ev' u'] Suc.prems il ji ne' by (simp add: setBit_def)
    have c: "NoteOn (midiChannel s) ?target (velocity s) \<in> set (fst (snd (keyStateLoop d i (?off, ev', u'))))" for ev' u'
      using Suc.IH [of ?off ev' u'] Suc.prems il ji ne' by (simp add: clearBit_def)
    show ?thesis
      using a b c by (simp add: Let_def)
  qed
qed

lemma keyStateChanged_fires:
  assumes "length (keyPressNotes s) = length (keyPresses s)" "distinct (keyPressNotes s)"
    and "(off, k) \<in> set (zip (keyPressNotes s) (keyPresses s))" "d k"
    and "12 * keyMappingOctave s + off \<notin> keysPressed s"
  shows "NoteOn (midiChannel s) (12 * keyMappingOctave s + off) (velocity s)
           \<in> set (fst (snd (keyStateChanged s d)))"
proof -
  from assms(3) obtain j where j: "j < length (keyPressNotes s)" "j < length (keyPresses s)"
      "keyPressNotes s ! j = off" "keyPresses s ! j = k"
    by (auto simp add: set_zip)
  show ?thesis
    unfolding keyStateChanged_def
    using keyStateLoop_fires [of s "length (keyPresses s)" j d "[]" False] assms j
    by simp
qed


text \<open>
  C6 (amended). \<^verbatim>\<open>setKeyPressForNote (k, off)\<close> removes every binding whose offset is \<open>off\<close>,
  whatever its key, and appends the pair of \<open>off\<close> and \<open>k\<close>; \<^verbatim>\<open>removeKeyPressForNote\<close>
  removes every binding of the offset. From a mapping without a repeated offset (the empty
  one, for example) every sequence of the two calls gives a mapping without a repeated
  offset. Bindings of \<open>k\<close> to other offsets stay: when \<open>k\<close> is down at the next key-state
  change, a note-on is sent for every offset bound to \<open>k\<close> whose note is not yet pressed,
  the new offset among them.
\<close>

theorem setKeyPressForNote_rebinds_offset:
  assumes "mappingOk s"
  shows "zip (keyPressNotes (setKeyPressForNote s k off)) (keyPresses (setKeyPressForNote s k off))
           = filter (\<lambda>p. fst p \<noteq> off) (zip (keyPressNotes s) (keyPresses s)) @ [(off, k)]
       \<and> zip (keyPressNotes (removeKeyPressForNote s off)) (keyPresses (removeKeyPressForNote s off))
           = filter (\<lambda>p. fst p \<noteq> off) (zip (keyPressNotes s) (keyPresses s))
       \<and> mappingOk (setKeyPressForNote s k off)
       \<and> mappingOk (applyMappingOps s ops)
       \<and> (\<forall>off'. (off', k) \<in> set (zip (keyPressNotes (setKeyPressForNote s k off))
                                        (keyPresses (setKeyPressForNote s k off)))
                  \<and> d k \<and> 12 * keyMappingOctave s + off' \<notin> keysPressed s
              \<longrightarrow> NoteOn (midiChannel s) (12 * keyMappingOctave s + off') (velocity s)
                    \<in> set (fst (snd (keyStateChanged (setKeyPressForNote s k off) d))))"
proof -
  from assms have l: "length (keyPressNotes s) = length (keyPresses s)"
    by (simp add: mappingOk_def)
  let ?s = "setKeyPressForNote s k off"
  have ok: "mappingOk ?s"
    using applyMappingOp_ok [OF assms, of "Bind k off"] by simp
  then have l': "length (keyPressNotes ?s) = length (keyPresses ?s)" and d': "distinct (keyPressNotes ?s)"
    by (simp_all add: mappingOk_def)
  have fires: "\<forall>off'. (off', k) \<in> set (zip (keyPressNotes ?s) (keyPresses ?s))
                  \<and> d k \<and> 12 * keyMappingOctave s + off' \<notin> keysPressed s
              \<longrightarrow> NoteOn (midiChannel s) (12 * keyMappingOctave s + off') (velocity s)
                    \<in> set (fst (snd (keyStateChanged ?s d)))"
    using keyStateChanged_fires [OF l' d', of _ k d]
    by (simp add: setKeyPressForNote_others)
  show ?thesis
    using setKeyPressForNote_mapping(3) [OF l, of k off] removeKeyPressForNote_mapping(3) [OF l, of off]
          ok applyMappingOps_ok [OF assms, of ops] fires
    by blast
qed

theorem setKeyPressForNote_rebinds_offset_witness:
  "mappingOk scenarioWidget
   \<and> zip (keyPressNotes (setKeyPressForNote scenarioWidget (KeyPress 97 0 0) 0))
         (keyPresses (setKeyPressForNote scenarioWidget (KeyPress 97 0 0) 0)) = [(0, KeyPress 97 0 0)]
   \<and> NoteOn 1 72 1 \<in> set (fst (snd (keyStateChanged (setKeyPressForNote scenarioWidget (KeyPress 97 0 0) 0)
                                         (onlyKeyDown (KeyPress 97 0 0)))))"
proof -
  have h: "mappingOk scenarioWidget"
    by (simp add: mappingOk_def scenarioWidget_def)
  have f: "keyPressNotes scenarioWidget = []" "keyPresses scenarioWidget = []"
    "midiChannel scenarioWidget = 1" "keyMappingOctave scenarioWidget = 6"
    "velocity scenarioWidget = 1" "keysPressed scenarioWidget = {}"
    by (simp_all add: scenarioWidget_def)
  note t = setKeyPressForNote_rebinds_offset [OF h, of "KeyPress 97 0 0" 0 "[]" "onlyKeyDown (KeyPress 97 0 0)"]
  have z: "zip (keyPressNotes (setKeyPressForNote scenarioWidget (KeyPress 97 0 0) 0))
         (keyPresses (setKeyPressForNote scenarioWidget (KeyPress 97 0 0) 0)) = [(0, KeyPress 97 0 0)]"
    using t [THEN conjunct1] by (simp add: f)
  have "NoteOn 1 72 1
          \<in> set (fst (snd (keyStateChanged (setKeyPressForNote scenarioWidget (KeyPress 97 0 0) 0)
                                         (onlyKeyDown (KeyPress 97 0 0)))))"
    using t [THEN conjunct2, THEN conjunct2, THEN conjunct2, THEN conjunct2, THEN spec, of 0]
    by (simp add: z f onlyKeyDown_def)
  then show ?thesis using h z by simp
qed

text \<open>
  The claim as written fails in its last part: after binding the key \<open>a\<close> to offset 0 and
  then to offset 1, pressing it sends note-on for both notes, 73 and 72.
\<close>

theorem rebound_key_fires_old_offset_too:
  "fst (snd (keyStateChanged
       (applyMappingOps scenarioWidget [Bind (KeyPress 97 0 0) 0, Bind (KeyPress 97 0 0) 1])
       (onlyKeyDown (KeyPress 97 0 0))))
   = [NoteOn 1 73 1, NoteOn 1 72 1]"
  by code_simp

section \<open>Pointer tracker: one entry per source\<close>

lemma sameSource_sourceOf: "sameSource ty ix x \<longleftrightarrow> sourceOf x = (ty, ix)"
  by (auto simp add: sameSource_def sourceOf_def)

lemma find_if_None: "find_if P xs = None \<longleftrightarrow> (\<forall>x \<in> set xs. \<not> P x)"
  by (induction xs) auto

lemma find_if_Some: "find_if P xs = Some i \<Longrightarrow> i < length xs \<and> P (xs ! i)"
  by (induction xs arbitrary: i) (auto split: if_splits)

lemma distinct_eraseAt: "distinct (map f xs) \<Longrightarrow> distinct (map f (eraseAt xs oi))"
proof (cases oi)
  case None
  assume "distinct (map f xs)"
  then show ?thesis using None by simp
next
  case (Some i)
  assume d: "distinct (map f xs)"
  show ?thesis
  proof (cases "i < length xs")
    case True
    have "map f xs = map f (take i xs) @ f (xs ! i) # map f (drop (Suc i) xs)"
      using True by (metis id_take_nth_drop list.simps(9) map_append)
    with d have "distinct (map f (take i xs) @ f (xs ! i) # map f (drop (Suc i) xs))" by simp
    then show ?thesis using Some by auto
  next
    case False
    then show ?thesis using Some d by simp
  qed
qed

lemma set_eraseAt: "set (eraseAt xs oi) \<subseteq> set xs"
  by (cases oi) (auto dest: in_set_takeD in_set_dropD)

lemma list_all_eraseAt: "list_all P xs \<Longrightarrow> list_all P (eraseAt xs oi)"
  using set_eraseAt [of xs oi] by (auto simp add: list_all_iff)

lemma eraseAt_found_noSource:
  assumes "distinct (map sourceOf xs)" "find_if (sameSource ty ix) xs = Some i"
  shows "\<forall>x \<in> set (eraseAt xs (Some i)). \<not> sameSource ty ix x"
proof
  fix x assume x: "x \<in> set (eraseAt xs (Some i))"
  from find_if_Some [OF assms(2)] have i: "i < length xs" "sourceOf (xs ! i) = (ty, ix)"
    by (simp_all add: sameSource_sourceOf)
  have m: "map sourceOf xs = map sourceOf (take i xs) @ sourceOf (xs ! i) # map sourceOf (drop (Suc i) xs)"
    using i(1) by (metis id_take_nth_drop list.simps(9) map_append)
  from assms(1) have "distinct (map sourceOf (take i xs) @ sourceOf (xs ! i) # map sourceOf (drop (Suc i) xs))"
    by (simp only: m [symmetric])
  then have "sourceOf (xs ! i) \<notin> sourceOf ` set (take i xs)" "sourceOf (xs ! i) \<notin> sourceOf ` set (drop (Suc i) xs)"
    by auto
  with x i(2) show "\<not> sameSource ty ix x"
    by (auto simp add: sameSource_sourceOf image_iff)
qed

lemma noteAt_neg_None:
  assumes "list_all (\<lambda>x. c \<le> noteNumber x) xs" "find_if P xs = oi" "noteAt xs oi < c" 
  shows "oi = None"
proof (cases oi)
  case None then show ?thesis .
next
  case (Some i)
  with find_if_Some [of P xs i] assms have "i < length xs" "noteNumber (xs ! i) < c" by simp_all
  with assms(1) show ?thesis by (auto simp add: list_all_length)
qed


lemma updateHover_ok:
  assumes "distinct (map sourceOf (mouseOverNotes s))" "list_all (\<lambda>x. noteNumber x \<noteq> -1) (mouseOverNotes s)"
    and oi: "oi = find_if (sameSource ty ix) (mouseOverNotes s)"
  shows "distinct (map sourceOf (mouseOverNotes (fst (updateHover s oi n ty ix))))
       \<and> list_all (\<lambda>x. noteNumber x \<noteq> -1) (mouseOverNotes (fst (updateHover s oi n ty ix)))
       \<and> mouseDownNotes (fst (updateHover s oi n ty ix)) = mouseDownNotes s"
proof (cases "noteAt (mouseOverNotes s) oi = n")
  case True
  then show ?thesis using assms by (simp add: updateHover_def)
next
  case ne: False
  show ?thesis
  proof (cases "n = -1")
    case True
    then show ?thesis
      using ne assms distinct_eraseAt [of sourceOf "mouseOverNotes s" oi]
            list_all_eraseAt [of _ "mouseOverNotes s" oi]
      by (simp add: updateHover_def)
  next
    case n: False
    show ?thesis
    proof (cases oi)
      case None
      then have "\<forall>x \<in> set (mouseOverNotes s). sourceOf x \<noteq> (ty, ix)"
        using oi find_if_None [of "sameSource ty ix" "mouseOverNotes s"]
        by (simp add: sameSource_sourceOf)
      then have "(ty, ix) \<notin> sourceOf ` set (mouseOverNotes s)" by auto
      then show ?thesis
        using ne n None assms(1,2) by (simp add: updateHover_def sourceOf_def)
    next
      case (Some i)
      with find_if_Some [of "sameSource ty ix" "mouseOverNotes s" i] oi
      have i: "i < length (mouseOverNotes s)" by simp
      have "noteNumber (mouseOverNotes s ! i) \<noteq> -1"
        using assms(2) i by (simp add: list_all_length)
      then have old: "noteAt (mouseOverNotes s) oi \<noteq> -1" using Some by simp
      have m: "map sourceOf ((mouseOverNotes s)[i := (mouseOverNotes s ! i)\<lparr>noteNumber := n\<rparr>])
                 = map sourceOf (mouseOverNotes s)"
        using i by (simp add: map_update sourceOf_def list_update_same_conv)
      have a: "list_all (\<lambda>x. noteNumber x \<noteq> -1) ((mouseOverNotes s)[i := (mouseOverNotes s ! i)\<lparr>noteNumber := n\<rparr>])"
        using assms(2) n i by (auto simp add: list_all_length nth_list_update)
      show ?thesis
        using ne n old Some assms(1) m a by (simp add: updateHover_def)
    qed
  qed
qed


lemma releaseDown_ok:
  assumes "distinct (map sourceOf (mouseDownNotes s))" "list_all (\<lambda>x. noteNumber x \<ge> 0) (mouseDownNotes s)"
  shows "distinct (map sourceOf (mouseDownNotes (fst (releaseDown s di k v))))
       \<and> list_all (\<lambda>x. noteNumber x \<ge> 0) (mouseDownNotes (fst (releaseDown s di k v)))
       \<and> mouseOverNotes (fst (releaseDown s di k v)) = mouseOverNotes s"
  using assms distinct_eraseAt [of sourceOf "mouseDownNotes s" di]
        list_all_eraseAt [of _ "mouseDownNotes s" di]
  by (simp add: releaseDown_def Let_def)

lemma releaseDown_noSource:
  assumes "distinct (map sourceOf (mouseDownNotes s))"
    and "find_if (sameSource ty ix) (mouseDownNotes s) = Some i"
  shows "\<forall>x \<in> set (mouseDownNotes (fst (releaseDown s (Some i) k v))). sourceOf x \<noteq> (ty, ix)"
  using eraseAt_found_noSource [OF assms]
  by (simp add: releaseDown_def Let_def sameSource_sourceOf)

lemma updateNoteUnderMouse_ok:
  assumes "trackerOk s"
  shows "trackerOk (fst (updateNoteUnderMouse s n v d ty ix))"
proof -
  define di where "di = find_if (sameSource ty ix) (mouseDownNotes s)"
  define oi where "oi = find_if (sameSource ty ix) (mouseOverNotes s)"
  define old where "old = noteAt (mouseDownNotes s) di"
  define s1 where "s1 = fst (updateHover s oi n ty ix)"
  define ev where "ev = jmax 0 (if useMousePositionForVelocity s then v * velocity s else 1)"
  from assms have a: "distinct (map sourceOf (mouseOverNotes s))" "distinct (map sourceOf (mouseDownNotes s))"
      "list_all (\<lambda>x. noteNumber x \<noteq> -1) (mouseOverNotes s)" "list_all (\<lambda>x. noteNumber x \<ge> 0) (mouseDownNotes s)"
    by (simp_all add: trackerOk_def)
  have h: "distinct (map sourceOf (mouseOverNotes s1))" "list_all (\<lambda>x. noteNumber x \<noteq> -1) (mouseOverNotes s1)"
      "mouseDownNotes s1 = mouseDownNotes s"
    using updateHover_ok [OF a(1) a(3) oi_def, of n] by (simp_all add: s1_def)
  have ok1: "trackerOk s1"
    using h a by (simp add: trackerOk_def)
  have d1: "distinct (map sourceOf (mouseDownNotes s1))" "list_all (\<lambda>x. noteNumber x \<ge> 0) (mouseDownNotes s1)"
    using h a by simp_all
  define s2 where "s2 = fst (releaseDown s1 di old ev)"
  have r: "distinct (map sourceOf (mouseDownNotes s2))" "list_all (\<lambda>x. noteNumber x \<ge> 0) (mouseDownNotes s2)"
      "mouseOverNotes s2 = mouseOverNotes s1"
    using releaseDown_ok [OF d1, of di old ev] by (simp_all add: s2_def)
  have ok2: "trackerOk s2"
    using r h by (simp add: trackerOk_def)
  \<comment> \<open>after a release, or when the source had no entry, no entry of the source is left\<close>
  have free2: "0 \<le> old \<Longrightarrow> \<forall>x \<in> set (mouseDownNotes s2). sourceOf x \<noteq> (ty, ix)"
  proof -
    assume "0 \<le> old"
    then obtain i where i: "di = Some i" by (cases di) (simp_all add: old_def)
    then have "find_if (sameSource ty ix) (mouseDownNotes s1) = Some i"
      using h(3) by (simp add: di_def)
    from releaseDown_noSource [OF d1(1) this, of old ev] show ?thesis
      by (simp add: s2_def i)
  qed
  have free1: "\<not> 0 \<le> old \<Longrightarrow> \<forall>x \<in> set (mouseDownNotes s1). sourceOf x \<noteq> (ty, ix)"
  proof -
    assume "\<not> 0 \<le> old"
    then have "noteAt (mouseDownNotes s) di < 0" by (simp add: old_def)
    from noteAt_neg_None [OF a(4) di_def [symmetric] this]
    have "find_if (sameSource ty ix) (mouseDownNotes s) = None" by (simp add: di_def)
    then show ?thesis
      by (simp add: find_if_None sameSource_sourceOf h(3))
  qed
  define new where "new = \<lparr>index = ix, type = ty, noteNumber = n\<rparr>"
  have add2: "0 \<le> old \<Longrightarrow> 0 \<le> n \<Longrightarrow> trackerOk (s2\<lparr>mouseDownNotes := mouseDownNotes s2 @ [new]\<rparr>)"
    using free2 ok2 by (auto simp add: trackerOk_def new_def sourceOf_def)
  have add1: "\<not> 0 \<le> old \<Longrightarrow> 0 \<le> n \<Longrightarrow> trackerOk (s1\<lparr>mouseDownNotes := mouseDownNotes s1 @ [new]\<rparr>)"
    using free1 ok1 by (auto simp add: trackerOk_def new_def sourceOf_def)
  show ?thesis
    unfolding updateNoteUnderMouse_def Let_def case_prod_beta
    unfolding di_def [symmetric] oi_def [symmetric]
    unfolding old_def [symmetric] ev_def [symmetric] s1_def [symmetric] new_def [symmetric]
    using ok1 ok2 add1 add2 by (simp add: s2_def [symmetric])
qed


lemma handlePointer_ok:
  assumes "trackerOk s"
  shows "trackerOk (fst (handlePointer s e n v ty ix))"
proof -
  have t: "trackerOk (t\<lparr>shouldCheckMousePos := b\<rparr>) = trackerOk t" for t b
    by (simp add: trackerOk_def)
  show ?thesis
    using updateNoteUnderMouse_ok [OF assms, of n v _ ty ix] assms
    by (cases e) (simp_all add: case_prod_beta t)
qed

lemma resetAnyKeysInUse_ok: "trackerOk (fst (resetAnyKeysInUse s))"
  by (simp add: resetAnyKeysInUse_def Let_def case_prod_beta trackerOk_def)

lemma runPointer_ok: "trackerOk s \<Longrightarrow> trackerOk (fst (runPointer s inputs))"
proof (induction inputs arbitrary: s)
  case Nil
  then show ?case by simp
next
  case (Cons a inputs)
  obtain e n v ty ix where a: "a = (e, n, v, ty, ix)" by (cases a) auto
  show ?case
    using Cons.IH [OF handlePointer_ok [OF Cons.prems, of e n v ty ix]]
    by (simp add: a case_prod_beta)
qed

lemma distinct_map_filter_le1:
  "distinct (map f xs) \<Longrightarrow> length (filter (\<lambda>x. f x = a) xs) \<le> 1"
proof (induction xs)
  case Nil
  then show ?case by simp
next
  case (Cons x xs)
  show ?case
  proof (cases "f x = a")
    case True
    with Cons.prems have "a \<notin> f ` set xs" by simp
    then have "\<forall>y \<in> set xs. f y \<noteq> a" by blast
    then have "filter (\<lambda>x. f x = a) xs = []" by (simp add: filter_empty_conv)
    then show ?thesis using True by simp
  next
    case False
    then show ?thesis using Cons by simp
  qed
qed

lemma trackerOk_unique:
  assumes "trackerOk s"
  shows "length (filter (sameSource ty ix) (mouseOverNotes s)) \<le> 1"
    and "length (filter (sameSource ty ix) (mouseDownNotes s)) \<le> 1"
proof -
  have e: "sameSource ty ix = (\<lambda>x. sourceOf x = (ty, ix))"
    by (rule ext) (simp add: sameSource_sourceOf)
  from assms have d: "distinct (map sourceOf (mouseOverNotes s))" "distinct (map sourceOf (mouseDownNotes s))"
    by (simp_all add: trackerOk_def)
  show "length (filter (sameSource ty ix) (mouseOverNotes s)) \<le> 1"
    unfolding e by (rule distinct_map_filter_le1 [OF d(1)])
  show "length (filter (sameSource ty ix) (mouseDownNotes s)) \<le> 1"
    unfolding e by (rule distinct_map_filter_le1 [OF d(2)])
qed

text \<open>
  C10. In a widget where no pointer source has two hover entries or two press entries (and
  no entry holds an impossible note, as in every state the widget reaches from its empty
  sets), \<^verbatim>\<open>updateNoteUnderMouse\<close>, each of the six mouse callbacks, \<^verbatim>\<open>resetAnyKeysInUse\<close> and
  every sequence of pointer events lead to such a widget again; so a lookup by source
  finds at most one hover entry and at most one press entry.
\<close>

theorem pointer_events_keep_one_entry_per_source:
  assumes "trackerOk s"
  shows "trackerOk (fst (updateNoteUnderMouse s n v d ty ix))
       \<and> trackerOk (fst (handlePointer s e n v ty ix))
       \<and> trackerOk (fst (resetAnyKeysInUse s))
       \<and> trackerOk (fst (runPointer s inputs))
       \<and> length (filter (sameSource ty' ix') (mouseOverNotes (fst (runPointer s inputs)))) \<le> 1
       \<and> length (filter (sameSource ty' ix') (mouseDownNotes (fst (runPointer s inputs)))) \<le> 1"
  using updateNoteUnderMouse_ok [OF assms] handlePointer_ok [OF assms] resetAnyKeysInUse_ok
        runPointer_ok [OF assms] trackerOk_unique [OF runPointer_ok [OF assms]]
  by simp

theorem pointer_events_keep_one_entry_per_source_witness:
  "trackerOk scenarioWidget
   \<and> trackerOk (fst (runPointer scenarioWidget
        [(MouseDown, 60, 1/2, touch, 0), (MouseDrag, 62, 1/2, touch, 0), (MouseMove, 64, 0, mouse, 0)]))
   \<and> length (filter (sameSource touch 0) (mouseDownNotes (fst (runPointer scenarioWidget
        [(MouseDown, 60, 1/2, touch, 0), (MouseDrag, 62, 1/2, touch, 0), (MouseMove, 64, 0, mouse, 0)])))) \<le> 1"
proof -
  have h: "trackerOk scenarioWidget"
    by (simp add: trackerOk_def scenarioWidget_def)
  show ?thesis
    using h pointer_events_keep_one_entry_per_source [OF h, of 60 0 True touch 0 MouseDown
        "[(MouseDown, 60, 1/2, touch, 0), (MouseDrag, 62, 1/2, touch, 0), (MouseMove, 64, 0, mouse, 0)]" touch 0]
    by simp
qed

text \<open>
  C2. The property: when two pointer sources press the same note, the release of one of
  them sends no note-off; the note-off is sent when the last source holding the note
  releases it or drags away. The source does not behave so. The press of a second source
  on a note that is already held is not recorded, because the entry is added only together
  with the note-on. When touch 0 and then touch 1 press note 60 and touch 0 lifts, the
  note-off for 60 is sent although touch 1 still holds the key; after the two presses the
  mouse-down set has the entry of touch 0 only. The lemma after the theorem shows the
  general fact: the mouse-down set never holds a note twice, so the test for another
  holder on release never finds one.
\<close>

theorem release_while_second_source_holds:
  "snd (runPointer scenarioWidget
     [(MouseDown, 60, 1/2, touch, 0), (MouseDown, 60, 1/2, touch, 1), (MouseUp, 60, 1/2, touch, 0)])
   = [RepaintNote 60, NoteOn 1 60 (1/2), RepaintNote 60, NoteOff 1 60 (1/2)]
   \<and> mouseDownNotes (fst (runPointer scenarioWidget
     [(MouseDown, 60, 1/2, touch, 0), (MouseDown, 60, 1/2, touch, 1)]))
   = [\<lparr>index = 0, type = touch, noteNumber = 60\<rparr>]"
  by code_simp


lemma containsNoteNumber_iff: "containsNoteNumber xs n \<longleftrightarrow> n \<in> noteNumber ` set xs"
  by (auto simp add: containsNoteNumber_def find_if_None)

lemma updateNoteUnderMouse_single_holder:
  assumes "distinct (map noteNumber (mouseDownNotes s))"
  shows "distinct (map noteNumber (mouseDownNotes (fst (updateNoteUnderMouse s n v d ty ix))))"
proof -
  define di where "di = find_if (sameSource ty ix) (mouseDownNotes s)"
  define oi where "oi = find_if (sameSource ty ix) (mouseOverNotes s)"
  define old where "old = noteAt (mouseDownNotes s) di"
  define s1 where "s1 = fst (updateHover s oi n ty ix)"
  define ev where "ev = jmax 0 (if useMousePositionForVelocity s then v * velocity s else 1)"
  define s2 where "s2 = fst (releaseDown s1 di old ev)"
  define new where "new = \<lparr>index = ix, type = ty, noteNumber = n\<rparr>"
  have d1: "distinct (map noteNumber (mouseDownNotes s1))"
    using assms by (simp add: s1_def updateHover_def Let_def)
  have d2: "distinct (map noteNumber (mouseDownNotes s2))"
    using distinct_eraseAt [OF d1, of di] by (simp add: s2_def releaseDown_def Let_def)
  have a1: "\<not> containsNoteNumber (mouseDownNotes s1) n \<Longrightarrow>
            distinct (map noteNumber (mouseDownNotes s1 @ [new]))"
    using d1 by (simp add: containsNoteNumber_iff new_def)
  have a2: "\<not> containsNoteNumber (mouseDownNotes s2) n \<Longrightarrow>
            distinct (map noteNumber (mouseDownNotes s2 @ [new]))"
    using d2 by (simp add: containsNoteNumber_iff new_def)
  show ?thesis
    unfolding updateNoteUnderMouse_def Let_def case_prod_beta
    unfolding di_def [symmetric] oi_def [symmetric]
    unfolding old_def [symmetric] ev_def [symmetric] s1_def [symmetric] new_def [symmetric]
    using d1 d2 a1 a2 by (simp add: s2_def [symmetric])
qed

section \<open>Setters called with the stored value\<close>

text \<open>
  C8 (amended). The setters that compare with the stored value first (key width,
  orientation, range, scroll-buttons flag, channel, both black-note ratios) and
  \<^verbatim>\<open>setVelocity\<close> (for a stored velocity scalar in its interval from 0 to 1) leave the whole
  widget unchanged and request neither relayout nor repaint when they are called with the
  stored value. The other two setters have no such comparison: \<^verbatim>\<open>setMidiChannelsToDisplay\<close>
  raises the check-state flag whatever the mask (it requests no repaint itself), and
  \<^verbatim>\<open>setOctaveForMiddleC\<close> requests a repaint whatever the octave.
\<close>

theorem setters_with_stored_value:
  assumes "0 \<le> velocity s \<and> velocity s \<le> 1"
  shows "setKeyWidth s (keyWidth s) = (s, [])
       \<and> setOrientation s (orientation s) = (s, [])
       \<and> setAvailableRange s (rangeStart s) (rangeEnd s) = (s, [])
       \<and> setScrollButtonsVisible s (canScroll s) = (s, [])
       \<and> setMidiChannel s (midiChannel s) = (s, [])
       \<and> setBlackNoteLengthProportion s (blackNoteLengthRatio s) = (s, [])
       \<and> setBlackNoteWidthProportion s (blackNoteWidthRatio s) = (s, [])
       \<and> setVelocity s (velocity s) (useMousePositionForVelocity s) = (s, [])
       \<and> setMidiChannelsToDisplay s (midiInChannelMask s) = (s\<lparr>shouldCheckState := True\<rparr>, [])
       \<and> setOctaveForMiddleC s (octaveNumForMiddleC s) = (s, [Repaint])"
  using assms
  by (simp add: setKeyWidth_def setOrientation_def setAvailableRange_def setScrollButtonsVisible_def
        setMidiChannel_def setBlackNoteLengthProportion_def setBlackNoteWidthProportion_def
        setVelocity_def setMidiChannelsToDisplay_def setOctaveForMiddleC_def jlimit_def)

theorem setters_with_stored_value_witness:
  "(0 \<le> velocity scenarioWidget \<and> velocity scenarioWidget \<le> 1)
   \<and> setKeyWidth scenarioWidget 20 = (scenarioWidget, [])
   \<and> setVelocity scenarioWidget 1 True = (scenarioWidget, [])
   \<and> setOctaveForMiddleC scenarioWidget 3 = (scenarioWidget, [Repaint])"
proof -
  have h: "0 \<le> velocity scenarioWidget \<and> velocity scenarioWidget \<le> 1"
    by (simp add: scenarioWidget_def)
  have f: "keyWidth scenarioWidget = 20" "velocity scenarioWidget = 1"
    "useMousePositionForVelocity scenarioWidget = True" "octaveNumForMiddleC scenarioWidget = 3"
    by (simp_all add: scenarioWidget_def)
  show ?thesis
    using h setters_with_stored_value [OF h] by (simp only: f)
qed

text \<open>
  The claim as written fails for these two setters: with the stored octave the first
  requests a repaint, and with the stored mask the second changes the check-state flag.
\<close>

theorem setOctaveForMiddleC_always_repaints:
  "snd (setOctaveForMiddleC scenarioWidget (octaveNumForMiddleC scenarioWidget)) = [Repaint]
   \<and> shouldCheckState (fst (setMidiChannelsToDisplay scenarioWidget (midiInChannelMask scenarioWidget)))
       \<noteq> shouldCheckState scenarioWidget"
  by (simp add: setOctaveForMiddleC_def setMidiChannelsToDisplay_def scenarioWidget_def)

section \<open>Relayout\<close>

lemma getKeyPosition_static:
  "getKeyPosition (s\<lparr>notePosStatic := Some (tableRatio s)\<rparr>) n u = getKeyPosition s n u"
  by (simp add: getKeyPosition_def tableRatio_def Let_def)

lemma getKeyPos_static:
  "getKeyPos (s\<lparr>notePosStatic := Some (tableRatio s)\<rparr>) n = getKeyPos s n"
  by (simp add: getKeyPos_def getKeyPosition_static)

lemma truncInt_of_int: "truncInt (of_int k) = k"
  by (simp add: truncInt_def)

lemma resizedScroll_at_rangeStart:
  "firstKey s = of_int (rangeStart s) \<Longrightarrow> firstKey (fst (resizedScroll s w)) = of_int (rangeStart s)"
  by (simp add: resizedScroll_def Let_def case_prod_beta truncInt_of_int jlimit_def)

text \<open>
  C9 (amended). \<^verbatim>\<open>resized\<close> changes nothing and requests nothing when the width or the height
  is not positive. When both are positive, the lowest visible note truncated to an integer
  differs from the range start, and the span from the start of the first key of the range
  to the end of its last key fits into the available size (the height for the two vertical
  orientations, the width otherwise), then \<^verbatim>\<open>resized\<close> leaves the lowest visible note at the
  range start and its first two requests are the change message and a repaint.
\<close>

theorem resized_noop_or_snap:
  shows "(width s \<le> 0 \<or> height s \<le> 0 \<longrightarrow> resized s = (s, []))
       \<and> (0 < width s \<and> 0 < height s \<and> truncInt (firstKey s) \<noteq> rangeStart s
            \<and> getEnd (getKeyPos s (rangeEnd s)) - getStart (getKeyPos s (rangeStart s))
                 \<le> of_int (if orientation s \<noteq> horizontalKeyboard then height s else width s)
          \<longrightarrow> firstKey (fst (resized s)) = of_int (rangeStart s)
              \<and> take 2 (snd (resized s)) = [ChangeMessage, Repaint])"
proof -
  have a: "width s \<le> 0 \<or> height s \<le> 0 \<longrightarrow> resized s = (s, [])"
    by (simp add: resized_def)
  have b: "firstKey (fst (resized s)) = of_int (rangeStart s)
              \<and> take 2 (snd (resized s)) = [ChangeMessage, Repaint]"
    if h: "0 < width s \<and> 0 < height s \<and> truncInt (firstKey s) \<noteq> rangeStart s
            \<and> getEnd (getKeyPos s (rangeEnd s)) - getStart (getKeyPos s (rangeStart s))
                 \<le> of_int (if orientation s \<noteq> horizontalKeyboard then height s else width s)"
  proof -
    have snap: "resizedSnap (s\<lparr>notePosStatic := Some (tableRatio s)\<rparr>) w
                  = (s\<lparr>notePosStatic := Some (tableRatio s), firstKey := of_int (rangeStart s)\<rparr>,
                     [ChangeMessage, Repaint])"
      if "getEnd (getKeyPos s (rangeEnd s)) - getStart (getKeyPos s (rangeStart s)) \<le> of_int w" for w
      using h that by (simp add: resizedSnap_def getKeyPos_static)
    show ?thesis
    proof (cases "orientation s = horizontalKeyboard")
      case True
      with h have "getEnd (getKeyPos s (rangeEnd s)) - getStart (getKeyPos s (rangeStart s)) \<le> of_int (width s)"
        by simp
      from snap [OF this] h True show ?thesis
        by (simp add: resized_def Let_def case_prod_beta resizedScroll_at_rangeStart)
    next
      case False
      with h have "getEnd (getKeyPos s (rangeEnd s)) - getStart (getKeyPos s (rangeStart s)) \<le> of_int (height s)"
        by simp
      from snap [OF this] h False show ?thesis
        by (simp add: resized_def Let_def case_prod_beta resizedScroll_at_rangeStart)
    qed
  qed
  from a b show ?thesis by blast
qed

theorem resized_noop_or_snap_witness:
  "(0 < width scrolledWidget \<and> 0 < height scrolledWidget
      \<and> truncInt (firstKey scrolledWidget) \<noteq> rangeStart scrolledWidget
      \<and> getEnd (getKeyPos scrolledWidget (rangeEnd scrolledWidget))
           - getStart (getKeyPos scrolledWidget (rangeStart scrolledWidget))
         \<le> of_int (if orientation scrolledWidget \<noteq> horizontalKeyboard
                    then height scrolledWidget else width scrolledWidget))
   \<and> firstKey (fst (resized scrolledWidget)) = 60
   \<and> take 2 (snd (resized scrolledWidget)) = [ChangeMessage, Repaint]
   \<and> (width (scrolledWidget\<lparr>width := 0\<rparr>) \<le> 0 \<or> height (scrolledWidget\<lparr>width := 0\<rparr>) \<le> 0)
   \<and> resized (scrolledWidget\<lparr>width := 0\<rparr>) = (scrolledWidget\<lparr>width := 0\<rparr>, [])"
proof -
  have h: "0 < width scrolledWidget \<and> 0 < height scrolledWidget
      \<and> truncInt (firstKey scrolledWidget) \<noteq> rangeStart scrolledWidget
      \<and> getEnd (getKeyPos scrolledWidget (rangeEnd scrolledWidget))
           - getStart (getKeyPos scrolledWidget (rangeStart scrolledWidget))
         \<le> of_int (if orientation scrolledWidget \<noteq> horizontalKeyboard
                    then height scrolledWidget else width scrolledWidget)"
    by code_simp
  have r: "rangeStart scrolledWidget = 60"
    by (simp add: scrolledWidget_def scenarioWidget_def)
  have z: "width (scrolledWidget\<lparr>width := 0\<rparr>) \<le> 0 \<or> height (scrolledWidget\<lparr>width := 0\<rparr>) \<le> 0"
    by simp
  from resized_noop_or_snap [of scrolledWidget, THEN conjunct2, THEN mp, OF h]
       resized_noop_or_snap [of "scrolledWidget\<lparr>width := 0\<rparr>", THEN conjunct1, THEN mp, OF z] h r z
  show ?thesis by simp
qed

text \<open>
  The claim as written compares the lowest visible note itself with the range start; the
  source compares its truncation. With range 0..127 fitting into the width and the lowest
  visible note at 1/2, \<^verbatim>\<open>resized\<close> keeps 1/2 and sends no change message.
\<close>

theorem resized_keeps_fractional_scroll:
  "0 < width wideWidget \<and> 0 < height wideWidget
   \<and> firstKey wideWidget \<noteq> of_int (rangeStart wideWidget)
   \<and> getEnd (getKeyPos wideWidget (rangeEnd wideWidget))
        - getStart (getKeyPos wideWidget (rangeStart wideWidget)) \<le> of_int (width wideWidget)
   \<and> orientation wideWidget = horizontalKeyboard
   \<and> firstKey (fst (resized wideWidget)) = 1/2
   \<and> snd (resized wideWidget) = [Repaint]"
  by code_simp

section \<open>The lowest visible note\<close>

lemma viewportOk_cong:
  "rangeStart t = rangeStart s \<Longrightarrow> rangeEnd t = rangeEnd s \<Longrightarrow> firstKey t = firstKey s
   \<Longrightarrow> viewportOk t = viewportOk s"
  by (simp add: viewportOk_def firstKeyInRange_def)

lemma resized_viewportOk: "viewportOk s \<Longrightarrow> viewportOk (fst (resized s))"
  using resized_firstKey [of s] by (simp add: viewportOk_def resized_fields)

lemma callResized_viewportOk: "viewportOk s \<Longrightarrow> viewportOk (fst (callResized s))"
  by (simp add: callResized_fst resized_viewportOk)

lemma setLowestVisibleKeyFloat_viewportOk:
  assumes "rangeStart s \<le> rangeEnd s"
  shows "viewportOk (fst (setLowestVisibleKeyFloat s n))"
proof -
  let ?c = "jlimit (of_int (rangeStart s)) (of_int (rangeEnd s)) n"
  have b: "of_int (rangeStart s) \<le> ?c \<and> ?c \<le> of_int (rangeEnd s)"
    using assms by (intro jlimit_bounds) simp
  show ?thesis
  proof (cases "?c = firstKey s")
    case True
    then show ?thesis
      using b assms by (simp add: setLowestVisibleKeyFloat_def Let_def viewportOk_def firstKeyInRange_def)
  next
    case False
    have "viewportOk (s\<lparr>firstKey := ?c\<rparr>)"
      using b assms by (simp add: viewportOk_def firstKeyInRange_def)
    from callResized_viewportOk [OF this] False show ?thesis
      by (simp add: setLowestVisibleKeyFloat_def Let_def case_prod_beta)
  qed
qed

lemma setAvailableRange_viewportOk:
  assumes "viewportOk s" "lo \<le> hi"
  shows "viewportOk (fst (setAvailableRange s lo hi))"
proof (cases "rangeStart s \<noteq> lo \<or> rangeEnd s \<noteq> hi")
  case False
  then show ?thesis using assms by (simp add: setAvailableRange_def)
next
  case True
  let ?lo = "jlimit 0 127 lo" and ?hi = "jlimit 0 127 hi"
  have le: "?lo \<le> ?hi" using assms(2) by (simp add: jlimit_def)
  let ?s3 = "s\<lparr>rangeStart := ?lo, rangeEnd := ?hi,
               firstKey := jlimit (of_int ?lo) (of_int ?hi) (firstKey s)\<rparr>"
  have "of_int ?lo \<le> jlimit (of_int ?lo) (of_int ?hi) (firstKey s)
        \<and> jlimit (of_int ?lo) (of_int ?hi) (firstKey s) \<le> (of_int ?hi :: rat)"
    using le by (intro jlimit_bounds) simp
  then have "viewportOk ?s3"
    using le by (simp add: viewportOk_def firstKeyInRange_def)
  from callResized_viewportOk [OF this] True show ?thesis
    by (simp add: setAvailableRange_def Let_def)
qed

lemma applySetter_viewportOk:
  assumes "viewportOk s" "setterArgOk c"
  shows "viewportOk (fst (applySetter s c))"
proof -
  have r: "viewportOk t \<Longrightarrow> viewportOk (fst (callResized t))" for t
    by (rule callResized_viewportOk)
  have u: "viewportOk (s\<lparr>keyWidth := a\<rparr>)" "viewportOk (s\<lparr>orientation := b\<rparr>)"
    "viewportOk (s\<lparr>canScroll := e\<rparr>)" "viewportOk (s\<lparr>blackNoteLengthRatio := f\<rparr>)"
    "viewportOk (s\<lparr>blackNoteWidthRatio := g\<rparr>)" for a b e f g
    using assms(1) by (simp_all add: viewportOk_def firstKeyInRange_def)
  show ?thesis
  proof (cases c)
    case (SetAvailableRange lo hi)
    then show ?thesis using setAvailableRange_viewportOk [OF assms(1), of lo hi] assms(2) by simp
  next
    case (SetLowestVisibleKey n)
    then show ?thesis
      using setLowestVisibleKeyFloat_viewportOk [of s "of_int n"] assms(1)
      by (simp add: setLowestVisibleKey_def viewportOk_def)
  next
    case (SetLowestVisibleKeyFloat n)
    then show ?thesis
      using setLowestVisibleKeyFloat_viewportOk [of s n] assms(1) by (simp add: viewportOk_def)
  next
    case (SetMidiChannel ch)
    have "viewportOk (fst (setMidiChannel s ch)) = viewportOk s"
      by (rule viewportOk_cong) (simp_all add: setMidiChannel_def case_prod_beta resetAnyKeysInUse_state)
    then show ?thesis using SetMidiChannel assms(1) by simp
  qed (use assms(1) r u in \<open>simp_all add: setKeyWidth_def setOrientation_def setScrollButtonsVisible_def
        setMidiChannelsToDisplay_def setVelocity_def setBlackNoteLengthProportion_def
        setBlackNoteWidthProportion_def setOctaveForMiddleC_def setKeyPressBaseOctave_def
        viewportOk_def firstKeyInRange_def\<close>)
qed

text \<open>
  C4 (amended). For a range with start at most end, \<^verbatim>\<open>setLowestVisibleKeyFloat\<close> clamps its
  argument into the range. If the clamped value is the stored one, nothing changes and
  nothing is requested. Otherwise the clamped value is stored, the setter itself sends the
  change message exactly when the truncated value changed, and then it calls \<^verbatim>\<open>resized\<close>;
  the resulting widget and the remaining requests are those of \<^verbatim>\<open>resized\<close> on the widget
  with the clamped value, which may move the lowest visible note again. So relayout is
  called exactly when the clamped value differs from the stored one. After the call, and
  after every other setter called on a widget whose lowest visible note is in its range
  (for \<^verbatim>\<open>setAvailableRange\<close> with a lowest note at most the highest), the lowest visible
  note is in the range.
\<close>

theorem setLowestVisibleKeyFloat_clamps_then_relayouts:
  assumes "rangeStart s \<le> rangeEnd s"
  shows "(let c = jlimit (of_int (rangeStart s)) (of_int (rangeEnd s)) n;
              r = setLowestVisibleKeyFloat s n
          in of_int (rangeStart s) \<le> c \<and> c \<le> of_int (rangeEnd s)
           \<and> (c = firstKey s \<longrightarrow> r = (s, []))
           \<and> (c \<noteq> firstKey s \<longrightarrow>
                 fst r = fst (resized (s\<lparr>firstKey := c\<rparr>))
               \<and> snd r = (if truncInt (firstKey s) \<noteq> truncInt c then [ChangeMessage] else [])
                          @ Resized # snd (resized (s\<lparr>firstKey := c\<rparr>)))
           \<and> (Resized \<in> set (snd r)) = (c \<noteq> firstKey s)
           \<and> takeWhile (\<lambda>e. e \<noteq> Resized) (snd r)
                = (if c \<noteq> firstKey s \<and> truncInt (firstKey s) \<noteq> truncInt c then [ChangeMessage] else [])
           \<and> viewportOk (fst r))
       \<and> (viewportOk s \<and> setterArgOk call \<longrightarrow> viewportOk (fst (applySetter s call)))"
proof -
  define c where "c = jlimit (of_int (rangeStart s)) (of_int (rangeEnd s)) n"
  define r where "r = setLowestVisibleKeyFloat s n"
  have b: "of_int (rangeStart s) \<le> c \<and> c \<le> of_int (rangeEnd s)"
    unfolding c_def using assms by (intro jlimit_bounds) simp
  have same: "c = firstKey s \<longrightarrow> r = (s, [])"
    by (simp add: r_def c_def setLowestVisibleKeyFloat_def Let_def)
  have diff: "c \<noteq> firstKey s \<longrightarrow>
                 fst r = fst (resized (s\<lparr>firstKey := c\<rparr>))
               \<and> snd r = (if truncInt (firstKey s) \<noteq> truncInt c then [ChangeMessage] else [])
                          @ Resized # snd (resized (s\<lparr>firstKey := c\<rparr>))"
    by (simp add: r_def c_def setLowestVisibleKeyFloat_def Let_def case_prod_beta
          callResized_fst callResized_snd)
  have rel: "(Resized \<in> set (snd r)) = (c \<noteq> firstKey s)"
    using same diff by (cases "c = firstKey s") simp_all
  have sig: "takeWhile (\<lambda>e. e \<noteq> Resized) (snd r)
                = (if c \<noteq> firstKey s \<and> truncInt (firstKey s) \<noteq> truncInt c then [ChangeMessage] else [])"
    using same diff by (cases "c = firstKey s") simp_all
  have ok: "viewportOk (fst r)"
    unfolding r_def by (rule setLowestVisibleKeyFloat_viewportOk [OF assms])
  have all: "viewportOk s \<and> setterArgOk call \<longrightarrow> viewportOk (fst (applySetter s call))"
    using applySetter_viewportOk by blast
  show ?thesis
    using b same diff rel sig ok all
    unfolding Let_def c_def [symmetric] r_def [symmetric] by blast
qed

theorem setLowestVisibleKeyFloat_clamps_then_relayouts_witness:
  "rangeStart scenarioWidget \<le> rangeEnd scenarioWidget
   \<and> viewportOk (fst (setLowestVisibleKeyFloat scenarioWidget 200))
   \<and> Resized \<in> set (snd (setLowestVisibleKeyFloat scenarioWidget 200))
   \<and> setLowestVisibleKeyFloat scenarioWidget 60 = (scenarioWidget, [])
   \<and> viewportOk scenarioWidget \<and> setterArgOk (SetAvailableRange 48 52)
   \<and> viewportOk (fst (applySetter scenarioWidget (SetAvailableRange 48 52)))"
proof -
  have h: "rangeStart scenarioWidget \<le> rangeEnd scenarioWidget"
    by (simp add: scenarioWidget_def)
  have v: "viewportOk scenarioWidget"
    by (simp add: viewportOk_def firstKeyInRange_def scenarioWidget_def)
  have c: "jlimit (of_int (rangeStart scenarioWidget)) (of_int (rangeEnd scenarioWidget)) 200 \<noteq> firstKey scenarioWidget"
          "jlimit (of_int (rangeStart scenarioWidget)) (of_int (rangeEnd scenarioWidget)) 60 = firstKey scenarioWidget"
    by (simp_all add: jlimit_def scenarioWidget_def)
  note t1 = setLowestVisibleKeyFloat_clamps_then_relayouts
              [OF h, of 200 "SetAvailableRange 48 52", unfolded Let_def]
  note t2 = setLowestVisibleKeyFloat_clamps_then_relayouts
              [OF h, of 60 "SetAvailableRange 48 52", unfolded Let_def]
  have a: "viewportOk (fst (setLowestVisibleKeyFloat scenarioWidget 200))"
    using t1 by blast
  have b: "Resized \<in> set (snd (setLowestVisibleKeyFloat scenarioWidget 200))"
    using t1 c(1) by blast
  have d: "setLowestVisibleKeyFloat scenarioWidget 60 = (scenarioWidget, [])"
    using t2 c(2) by blast
  have e: "setterArgOk (SetAvailableRange 48 52)"
    by simp
  have f: "viewportOk (fst (applySetter scenarioWidget (SetAvailableRange 48 52)))"
    using t1 v e by blast
  from h a b d v e f show ?thesis by blast
qed

text \<open>
  The claim as written fails where relayout moves the value after the setter stored it:
  without scroll buttons, setting note 65 (already inside the range) ends at the range
  start 60; and in the scenario widget, setting 60.5 keeps the truncated value 60 but a
  change message is sent all the same, by relayout.
\<close>

theorem relayout_moves_first_key_again:
  "jlimit (of_int (rangeStart noScrollWidget)) (of_int (rangeEnd noScrollWidget)) 65 = (65 :: rat)
   \<and> firstKey (fst (setLowestVisibleKeyFloat noScrollWidget 65)) = 60
   \<and> truncInt (firstKey scenarioWidget) = truncInt (121/2)
   \<and> snd (setLowestVisibleKeyFloat scenarioWidget (121/2)) = [Resized, ChangeMessage, Repaint]"
  by code_simp

section \<open>Geometry: the span of a key\<close>

lemma mkRange_nonneg: "0 \<le> w \<Longrightarrow> mkRange a (a + w) = (a, a + w)"
  by (simp add: mkRange_def jmax_def)

lemma pitch_class_cases:
  "0 \<le> (n::int) \<Longrightarrow> n mod 12 \<in> {0, 1, 2, 3, 4, 5, 6, 7, 8, 9, 10, 11}"
  by simp presburger

lemma isMidiNoteBlack_mod [simp]: "isMidiNoteBlack (n mod 12) = isMidiNoteBlack n"
  by (simp add: isMidiNoteBlack_def)

lemma getKeyPosition_white:
  assumes "0 \<le> n" "0 \<le> u" "\<not> isMidiNoteBlack n"
  shows "getLength (getKeyPosition s n u) = u"
    and "\<exists>k \<in> {0..6}. getStart (getKeyPosition s n u) = of_int (n div 12) * 7 * u + of_int k * u"
proof -
  have r: "getKeyPosition s n u =
        (of_int (n div 12) * 7 * u + (notePos (tableRatio s) ! nat (n mod 12)) * u,
         of_int (n div 12) * 7 * u + (notePos (tableRatio s) ! nat (n mod 12)) * u + u)"
    using assms by (simp add: getKeyPosition_def Let_def mkRange_nonneg)
  show "getLength (getKeyPosition s n u) = u"
    by (simp add: r getLength_def)
  have "n mod 12 \<in> {0, 2, 4, 5, 7, 9, 11}"
    using pitch_class_cases [OF assms(1)] assms(3) by (auto simp add: isMidiNoteBlack_def)
  then have "\<exists>k \<in> {0..6}. notePos (tableRatio s) ! nat (n mod 12) = of_int k"
    by (auto simp add: notePos_def)
  then show "\<exists>k \<in> {0..6}. getStart (getKeyPosition s n u) = of_int (n div 12) * 7 * u + of_int k * u"
    by (auto simp add: r getStart_def)
qed

lemma getKeyPosition_black:
  assumes "0 \<le> u" "0 \<le> blackNoteWidthRatio s" "isMidiNoteBlack n"
  shows "getLength (getKeyPosition s n u) = blackNoteWidthRatio s * u"
  using assms by (simp add: getKeyPosition_def Let_def mkRange_nonneg getLength_def)

lemma getKeyPosition_start:
  "getStart (getKeyPosition s n u)
     = of_int (n div 12) * 7 * u + notePos (tableRatio s) ! nat (n mod 12) * u"
  by (simp add: getKeyPosition_def Let_def mkRange_def getStart_def)

lemma getKeyPos_span:
  "getStart (getKeyPos s n)
     = getStart (getKeyPosition s n (keyWidth s)) - xOffset s
       - getStart (getKeyPosition s (rangeStart s) (keyWidth s))"
  "getLength (getKeyPos s n) = getLength (getKeyPosition s n (keyWidth s))"
  by (simp_all add: getKeyPos_def shiftRange_def getStart_def getLength_def)

text \<open>
  C3. \<^verbatim>\<open>getKeyPosition\<close> follows the per-octave offset table. For a note number that is not
  negative and a unit key width \<open>u\<close>, the span starts at the octave number times 7 \<open>u\<close> plus
  the table entry of the pitch class times \<open>u\<close>: the entries 0, 1, 2, 3, 4, 5, 6 for the
  white pitch classes 0, 2, 4, 5, 7, 9, 11, and 1 - 0.6 r, 2 - 0.4 r, 4 - 0.7 r, 5 - 0.5 r,
  6 - 0.3 r for the black pitch classes 1, 3, 6, 8, 10, where \<open>r\<close> is the ratio the table was
  built from (the black-note width ratio itself as long as the table has not been built).
  For \<open>u\<close> not negative a white span has width \<open>u\<close> and a black span has width \<open>u\<close> times
  the black-note width ratio (for a ratio that is not negative). \<^verbatim>\<open>getKeyPos\<close> is that span
  for the widget's key width, moved down by the scroll offset and by the start of the first
  key of the range. In the scenario (horizontal, key width 20, range 60..72, ratio 0.7,
  scrolled to the range start) \<^verbatim>\<open>getKeyPos\<close> places note 60 at 0 with width 20 and note 61
  at 20 (1 - 0.6 * 0.7) = 11.6 with width 14.
\<close>

theorem key_span_follows_table:
  assumes "0 \<le> n" "0 \<le> u"
  shows "(n mod 12 = 0 \<longrightarrow> getStart (getKeyPosition s n u) = of_int (n div 12) * 7 * u + 0 * u)
       \<and> (n mod 12 = 1 \<longrightarrow> getStart (getKeyPosition s n u)
                                = of_int (n div 12) * 7 * u + (1 - tableRatio s * (6/10)) * u)
       \<and> (n mod 12 = 2 \<longrightarrow> getStart (getKeyPosition s n u) = of_int (n div 12) * 7 * u + 1 * u)
       \<and> (n mod 12 = 3 \<longrightarrow> getStart (getKeyPosition s n u)
                                = of_int (n div 12) * 7 * u + (2 - tableRatio s * (4/10)) * u)
       \<and> (n mod 12 = 4 \<longrightarrow> getStart (getKeyPosition s n u) = of_int (n div 12) * 7 * u + 2 * u)
       \<and> (n mod 12 = 5 \<longrightarrow> getStart (getKeyPosition s n u) = of_int (n div 12) * 7 * u + 3 * u)
       \<and> (n mod 12 = 6 \<longrightarrow> getStart (getKeyPosition s n u)
                                = of_int (n div 12) * 7 * u + (4 - tableRatio s * (7/10)) * u)
       \<and> (n mod 12 = 7 \<longrightarrow> getStart (getKeyPosition s n u) = of_int (n div 12) * 7 * u + 4 * u)
       \<and> (n mod 12 = 8 \<longrightarrow> getStart (getKeyPosition s n u)
                                = of_int (n div 12) * 7 * u + (5 - tableRatio s * (5/10)) * u)
       \<and> (n mod 12 = 9 \<longrightarrow> getStart (getKeyPosition s n u) = of_int (n div 12) * 7 * u + 5 * u)
       \<and> (n mod 12 = 10 \<longrightarrow> getStart (getKeyPosition s n u)
                                = of_int (n div 12) * 7 * u + (6 - tableRatio s * (3/10)) * u)
       \<and> (n mod 12 = 11 \<longrightarrow> getStart (getKeyPosition s n u) = of_int (n div 12) * 7 * u + 6 * u)
       \<and> (notePosStatic s = None \<longrightarrow> tableRatio s = blackNoteWidthRatio s)
       \<and> (\<not> isMidiNoteBlack n \<longrightarrow>
            getLength (getKeyPosition s n u) = u
          \<and> (\<exists>k \<in> {0..6}. getStart (getKeyPosition s n u) = of_int (n div 12) * 7 * u + of_int k * u))
       \<and> (isMidiNoteBlack n \<and> 0 \<le> blackNoteWidthRatio s \<longrightarrow>
            getLength (getKeyPosition s n u) = blackNoteWidthRatio s * u)
       \<and> isMidiNoteBlack n = (n mod 12 \<in> {1, 3, 6, 8, 10})
       \<and> getStart (getKeyPos s n)
            = getStart (getKeyPosition s n (keyWidth s)) - xOffset s
              - getStart (getKeyPosition s (rangeStart s) (keyWidth s))
       \<and> getLength (getKeyPos s n) = getLength (getKeyPosition s n (keyWidth s))
       \<and> getKeyPos scenarioWidget 60 = (0, 20)
       \<and> getStart (getKeyPos scenarioWidget 61) = 20 * (1 - (6/10) * (7/10))
       \<and> getStart (getKeyPos scenarioWidget 61) = 116/10
       \<and> getLength (getKeyPos scenarioWidget 61) = 14"
proof -
  have c: "getKeyPos scenarioWidget 60 = (0, 20)" "getKeyPos scenarioWidget 61 = (116/10, 256/10)"
    by code_simp+
  have sc: "getStart (getKeyPos scenarioWidget 61) = 20 * (1 - (6/10) * (7/10))"
    "getStart (getKeyPos scenarioWidget 61) = 116/10"
    "getLength (getKeyPos scenarioWidget 61) = 14"
    by (simp_all add: c getStart_def getLength_def)
  have w: "n mod 12 = 0 \<longrightarrow> getStart (getKeyPosition s n u) = of_int (n div 12) * 7 * u + 0 * u"
    "n mod 12 = 2 \<longrightarrow> getStart (getKeyPosition s n u) = of_int (n div 12) * 7 * u + 1 * u"
    "n mod 12 = 4 \<longrightarrow> getStart (getKeyPosition s n u) = of_int (n div 12) * 7 * u + 2 * u"
    "n mod 12 = 5 \<longrightarrow> getStart (getKeyPosition s n u) = of_int (n div 12) * 7 * u + 3 * u"
    "n mod 12 = 7 \<longrightarrow> getStart (getKeyPosition s n u) = of_int (n div 12) * 7 * u + 4 * u"
    "n mod 12 = 9 \<longrightarrow> getStart (getKeyPosition s n u) = of_int (n div 12) * 7 * u + 5 * u"
    "n mod 12 = 11 \<longrightarrow> getStart (getKeyPosition s n u) = of_int (n div 12) * 7 * u + 6 * u"
    by (simp_all add: getKeyPosition_start notePos_def)
  have k: "n mod 12 = 1 \<longrightarrow> getStart (getKeyPosition s n u)
                                = of_int (n div 12) * 7 * u + (1 - tableRatio s * (6/10)) * u"
    "n mod 12 = 3 \<longrightarrow> getStart (getKeyPosition s n u)
                                = of_int (n div 12) * 7 * u + (2 - tableRatio s * (4/10)) * u"
    "n mod 12 = 6 \<longrightarrow> getStart (getKeyPosition s n u)
                                = of_int (n div 12) * 7 * u + (4 - tableRatio s * (7/10)) * u"
    "n mod 12 = 8 \<longrightarrow> getStart (getKeyPosition s n u)
                                = of_int (n div 12) * 7 * u + (5 - tableRatio s * (5/10)) * u"
    "n mod 12 = 10 \<longrightarrow> getStart (getKeyPosition s n u)
                                = of_int (n div 12) * 7 * u + (6 - tableRatio s * (3/10)) * u"
    by (simp_all add: getKeyPosition_start notePos_def)
  have t: "notePosStatic s = None \<longrightarrow> tableRatio s = blackNoteWidthRatio s"
    by (simp add: tableRatio_def)
  have b: "isMidiNoteBlack n = (n mod 12 \<in> {1, 3, 6, 8, 10})"
    by (simp only: isMidiNoteBlack_def)
  have wh: "\<not> isMidiNoteBlack n \<longrightarrow>
            getLength (getKeyPosition s n u) = u
          \<and> (\<exists>k \<in> {0..6}. getStart (getKeyPosition s n u) = of_int (n div 12) * 7 * u + of_int k * u)"
    using getKeyPosition_white [OF assms, of s] by blast
  have bl: "isMidiNoteBlack n \<and> 0 \<le> blackNoteWidthRatio s \<longrightarrow>
            getLength (getKeyPosition s n u) = blackNoteWidthRatio s * u"
    using getKeyPosition_black [OF assms(2), of s n] by blast
  from w k t b wh bl getKeyPos_span [of s n] c(1) sc show ?thesis
    by (intro conjI)
qed

theorem key_span_follows_table_witness:
  "(0::int) \<le> 61 \<and> (0::int) \<le> 62 \<and> (0::rat) \<le> 20
   \<and> (61::int) mod 12 = 1 \<and> (62::int) mod 12 = 2
   \<and> notePosStatic scenarioWidget = None
   \<and> isMidiNoteBlack 61 \<and> 0 \<le> blackNoteWidthRatio scenarioWidget
   \<and> getStart (getKeyPosition scenarioWidget 61 20) = 7116/10
   \<and> getLength (getKeyPosition scenarioWidget 61 20) = 14
   \<and> getStart (getKeyPosition scenarioWidget 62 20) = 720
   \<and> getLength (getKeyPosition scenarioWidget 62 20) = 20"
proof -
  have b: "isMidiNoteBlack 61" "\<not> isMidiNoteBlack 62" "blackNoteWidthRatio scenarioWidget = 7/10"
    "notePosStatic scenarioWidget = None" "tableRatio scenarioWidget = 7/10"
    by (simp_all add: isMidiNoteBlack_def tableRatio_def scenarioWidget_def)
  have m: "(61::int) mod 12 = 1" "(62::int) mod 12 = 2" "(61::int) div 12 = 5" "(62::int) div 12 = 5"
    by simp_all
  note t1 = key_span_follows_table [of 61 20 scenarioWidget]
  note t2 = key_span_follows_table [of 62 20 scenarioWidget]
  have s1: "getStart (getKeyPosition scenarioWidget 61 20) = 7116/10"
    using t1 m by (simp add: b)
  have l1: "getLength (getKeyPosition scenarioWidget 61 20) = 14"
    using t1 b by simp
  have s2: "getStart (getKeyPosition scenarioWidget 62 20) = 720"
    using t2 m by simp
  have l2: "getLength (getKeyPosition scenarioWidget 62 20) = 20"
    using t2 b by simp
  from s1 l1 s2 l2 b m show ?thesis by simp
qed

section \<open>Geometry: from the centre of a key back to its note\<close>









lemma uwidth_mod [simp]: "uwidth (n mod 12) = uwidth n"
  by (simp add: uwidth_def)

















end
